theory Spec2Isabelle
  imports Main "HOL-Library.Word"
begin

unbundle bit_operations_syntax

section \<open>Common types (ur\_types.h, ur\_config.h)\<close>

datatype ur_err_t =
    UR_OK
  | UR_ERR_INVALID_ARG
  | UR_ERR_NO_MEMORY
  | UR_ERR_QUEUE_FULL
  | UR_ERR_NOT_FOUND
  | UR_ERR_INVALID_STATE
  | UR_ERR_TIMEOUT
  | UR_ERR_ALREADY_EXISTS
  | UR_ERR_DISABLED

definition UR_CFG_MAX_ENTITIES :: nat where
  "UR_CFG_MAX_ENTITIES = 16"

section \<open>Power manager (ur\_power.c)\<close>

text \<open>
  \<^verbatim>\<open>ur_power_mode_t\<close> is an enum with values 0..3 and the count 4; the lock table
  stores the mode in a \<^verbatim>\<open>uint8_t\<close> and \<^verbatim>\<open>ur_power_get_allowed_mode\<close> counts an
  \<^verbatim>\<open>int\<close> down from 3 to 1, so modes are numbers here.
\<close>

definition UR_POWER_ACTIVE :: nat where "UR_POWER_ACTIVE = 0"
definition UR_POWER_IDLE :: nat where "UR_POWER_IDLE = 1"
definition UR_POWER_LIGHT_SLEEP :: nat where "UR_POWER_LIGHT_SLEEP = 2"
definition UR_POWER_DEEP_SLEEP :: nat where "UR_POWER_DEEP_SLEEP = 3"
definition UR_POWER_MODE_COUNT :: nat where "UR_POWER_MODE_COUNT = 4"

definition UR_CFG_POWER_MAX_MODES :: nat where
  "UR_CFG_POWER_MAX_MODES = 4"

definition MAX_LOCKS :: nat where
  "MAX_LOCKS = UR_CFG_MAX_ENTITIES * UR_CFG_POWER_MAX_MODES"

record lock_entry_t =
  lock_entity_id :: "16 word"
  lock_mode :: nat
  lock_count :: "8 word"

text \<open>
  The part of \<^verbatim>\<open>g_power\<close> that the lock functions read and write: the first
  \<^verbatim>\<open>lock_count\<close> slots of \<^verbatim>\<open>locks\<close> as a list, and the \<^verbatim>\<open>initialized\<close> flag.
\<close>

record power_state =
  locks :: "lock_entry_t list"
  power_initialized :: bool

definition g_power_zero :: power_state where
  "g_power_zero = \<lparr>locks = [], power_initialized = False\<rparr>"

definition ur_power_init :: "power_state \<Rightarrow> power_state" where
  "ur_power_init g = \<lparr>locks = [], power_initialized = True\<rparr>"

fun find_lock_index :: "lock_entry_t list \<Rightarrow> 16 word \<Rightarrow> nat \<Rightarrow> nat option" where
  "find_lock_index [] entity_id mode = None"
| "find_lock_index (l # ls) entity_id mode =
     (if lock_entity_id l = entity_id \<and> lock_mode l = mode then Some 0
      else map_option Suc (find_lock_index ls entity_id mode))"

definition ur_power_lock :: "16 word \<Rightarrow> nat \<Rightarrow> power_state \<Rightarrow> ur_err_t \<times> power_state" where
  "ur_power_lock ent_id mode g =
     (if mode \<ge> UR_POWER_MODE_COUNT then (UR_ERR_INVALID_ARG, g)
      else
        let g1 = (if \<not> power_initialized g then ur_power_init g else g) in
        case find_lock_index (locks g1) ent_id mode of
          Some i \<Rightarrow>
            (UR_OK, g1\<lparr>locks := (locks g1)[i := (locks g1 ! i)\<lparr>lock_count := lock_count (locks g1 ! i) + 1\<rparr>]\<rparr>)
        | None \<Rightarrow>
            if length (locks g1) \<ge> MAX_LOCKS then (UR_ERR_NO_MEMORY, g1)
            else (UR_OK, g1\<lparr>locks := locks g1 @
                   [\<lparr>lock_entity_id = ent_id, lock_mode = mode, lock_count = 1\<rparr>]\<rparr>))"

definition ur_power_unlock :: "16 word \<Rightarrow> nat \<Rightarrow> power_state \<Rightarrow> ur_err_t \<times> power_state" where
  "ur_power_unlock ent_id mode g =
     (if mode \<ge> UR_POWER_MODE_COUNT then (UR_ERR_INVALID_ARG, g)
      else
        case find_lock_index (locks g) ent_id mode of
          None \<Rightarrow> (UR_ERR_NOT_FOUND, g)
        | Some i \<Rightarrow>
            let c = lock_count (locks g ! i) - 1 in
            if c = 0 then (UR_OK, g\<lparr>locks := take i (locks g) @ drop (Suc i) (locks g)\<rparr>)
            else (UR_OK, g\<lparr>locks := (locks g)[i := (locks g ! i)\<lparr>lock_count := c\<rparr>]\<rparr>))"

fun ur_power_is_locked_in :: "lock_entry_t list \<Rightarrow> nat \<Rightarrow> bool" where
  "ur_power_is_locked_in [] mode = False"
| "ur_power_is_locked_in (l # ls) mode =
     (if lock_mode l = mode then True else ur_power_is_locked_in ls mode)"

definition ur_power_is_locked :: "power_state \<Rightarrow> nat \<Rightarrow> bool" where
  "ur_power_is_locked g mode = ur_power_is_locked_in (locks g) mode"

text \<open>
  The loop \<^verbatim>\<open>for (int mode = UR_POWER_DEEP_SLEEP; mode >= UR_POWER_IDLE; mode--)\<close>:
  \<open>allowed_mode_from g m\<close> is the loop entered with \<^verbatim>\<open>mode == m\<close>.
\<close>

fun allowed_mode_from :: "power_state \<Rightarrow> nat \<Rightarrow> nat" where
  "allowed_mode_from g 0 = UR_POWER_ACTIVE"
| "allowed_mode_from g (Suc m) =
     (if \<not> ur_power_is_locked g (Suc m) then Suc m else allowed_mode_from g m)"

definition ur_power_get_allowed_mode :: "power_state \<Rightarrow> nat" where
  "ur_power_get_allowed_mode g = allowed_mode_from g UR_POWER_DEEP_SLEEP"

section \<open>Signals, rules, states, entities (ur\_types.h)\<close>

definition UR_CFG_SIGNAL_PAYLOAD_SIZE :: nat where
  "UR_CFG_SIGNAL_PAYLOAD_SIZE = 4"

definition UR_CFG_INBOX_SIZE :: nat where
  "UR_CFG_INBOX_SIZE = 8"

definition UR_CFG_MAX_MIDDLEWARE :: nat where
  "UR_CFG_MAX_MIDDLEWARE = 8"

definition SIG_NONE :: "16 word" where "SIG_NONE = 0x0000"
definition SIG_SYS_ENTRY :: "16 word" where "SIG_SYS_ENTRY = 0x0002"
definition SIG_SYS_EXIT :: "16 word" where "SIG_SYS_EXIT = 0x0003"

definition UR_FLAG_ACTIVE :: "8 word" where "UR_FLAG_ACTIVE = 0x01"
definition UR_FLAG_SUSPENDED :: "8 word" where "UR_FLAG_SUSPENDED = 0x02"
definition UR_FLAG_FLOW_RUNNING :: "8 word" where "UR_FLAG_FLOW_RUNNING = 0x04"

text \<open>
  \<^verbatim>\<open>ur_signal_t\<close>: the payload union is its byte view \<^verbatim>\<open>payload.u8\<close>, the pointer is an
  opaque number (0 is \<^verbatim>\<open>NULL\<close>).
\<close>

record ur_signal_t =
  sig_id :: "16 word"
  sig_src_id :: "16 word"
  sig_payload :: "8 word list"
  sig_ptr :: nat
  sig_timestamp :: "32 word"

text \<open>
  A function pointer (\<^verbatim>\<open>ur_action_fn_t\<close>, \<^verbatim>\<open>ur_middleware_fn_t\<close>) is the name of the
  function, \<open>None\<close> is \<^verbatim>\<open>NULL\<close>; what a named function does is given by an environment
  (\<open>action_env\<close>, \<open>mw_env\<close> below).
\<close>

type_synonym fn_ptr = nat

record ur_rule_t =
  rule_signal_id :: "16 word"
  rule_next_state :: "16 word"
  rule_action :: "fn_ptr option"

text \<open>
  \<^verbatim>\<open>rules\<close> with \<^verbatim>\<open>rule_count\<close>: \<open>None\<close> is a \<^verbatim>\<open>NULL\<close> table, \<open>Some rs\<close> the first
  \<^verbatim>\<open>rule_count\<close> rules.
\<close>

record ur_state_def_t =
  st_id :: "16 word"
  st_parent_id :: "16 word"
  st_on_entry :: "fn_ptr option"
  st_on_exit :: "fn_ptr option"
  st_rules :: "ur_rule_t list option"

record ur_mixin_t =
  mx_rules :: "ur_rule_t list option"
  mx_priority :: "8 word"

datatype ur_mw_result_t = UR_MW_CONTINUE | UR_MW_HANDLED | UR_MW_FILTERED | UR_MW_TRANSFORM

record ur_middleware_t =
  mw_fn :: "fn_ptr option"
  mw_ctx :: nat
  mw_priority :: "8 word"
  mw_enabled :: "8 word"

text \<open>
  \<^verbatim>\<open>ur_entity_t\<close>. The counted arrays (\<^verbatim>\<open>states\<close>, \<^verbatim>\<open>mixins\<close>, \<^verbatim>\<open>middleware\<close>) are
  lists of their first \<^verbatim>\<open>count\<close> elements; the FreeRTOS queue \<^verbatim>\<open>inbox\<close> is the list of
  the queued signals, oldest first, of at most \<open>UR_CFG_INBOX_SIZE\<close> elements.
\<close>

record ur_entity_t =
  ent_id :: "16 word"
  current_state :: "16 word"
  ent_flags :: "8 word"
  states :: "ur_state_def_t list"
  initial_state :: "8 word"
  mixins :: "ur_mixin_t option list"
  middleware :: "ur_middleware_t list"
  flow_line :: "16 word"
  flow_wait_sig :: "16 word"
  flow_wait_until :: "32 word"
  scratch :: "8 word list"
  inbox :: "ur_signal_t list"

text \<open>
  An action gets the entity and the signal and returns a state id; it may write to the
  entity. A middleware also gets its context and may write to the signal.
\<close>

type_synonym action_env = "fn_ptr \<Rightarrow> ur_entity_t \<Rightarrow> ur_signal_t \<Rightarrow> 16 word \<times> ur_entity_t"

type_synonym mw_env =
  "fn_ptr \<Rightarrow> ur_entity_t \<Rightarrow> ur_signal_t \<Rightarrow> nat \<Rightarrow> ur_mw_result_t \<times> ur_entity_t \<times> ur_signal_t"

text \<open>
  The calls the kernel makes through function pointers, in the order it makes them, each
  with the signal it passes: a record kept beside the entity, which no callee can write.
\<close>

datatype call =
    MiddlewareCall fn_ptr ur_signal_t
  | RuleActionCall fn_ptr ur_signal_t
  | OnExitCall fn_ptr ur_signal_t
  | OnEntryCall fn_ptr ur_signal_t

section \<open>Core engine (ur\_core.c, ur\_panic.c)\<close>

text \<open>\<^verbatim>\<open>ur_signal_create\<close>; \<open>now\<close> is the clock reading it takes.\<close>

definition ur_signal_create :: "16 word \<Rightarrow> 16 word \<Rightarrow> 32 word \<Rightarrow> ur_signal_t" where
  "ur_signal_create sid src now =
     \<lparr>sig_id = sid, sig_src_id = src,
      sig_payload = replicate UR_CFG_SIGNAL_PAYLOAD_SIZE 0,
      sig_ptr = 0, sig_timestamp = now\<rparr>"

definition find_state :: "ur_entity_t \<Rightarrow> 16 word \<Rightarrow> ur_state_def_t option" where
  "find_state ent state_id = find (\<lambda>s. st_id s = state_id) (states ent)"

definition find_rule_in_state :: "ur_state_def_t \<Rightarrow> 16 word \<Rightarrow> ur_rule_t option" where
  "find_rule_in_state state signal_id =
     (case st_rules state of
        None \<Rightarrow> None
      | Some rs \<Rightarrow> find (\<lambda>r. rule_signal_id r = signal_id) rs)"

fun find_rule_in_mixin_list :: "ur_mixin_t option list \<Rightarrow> 16 word \<Rightarrow> ur_rule_t option" where
  "find_rule_in_mixin_list [] signal_id = None"
| "find_rule_in_mixin_list (m # ms) signal_id =
     (case m of
        None \<Rightarrow> find_rule_in_mixin_list ms signal_id
      | Some mixin \<Rightarrow>
          (case mx_rules mixin of
             None \<Rightarrow> find_rule_in_mixin_list ms signal_id
           | Some rs \<Rightarrow>
               (case find (\<lambda>r. rule_signal_id r = signal_id) rs of
                  Some r \<Rightarrow> Some r
                | None \<Rightarrow> find_rule_in_mixin_list ms signal_id)))"

definition find_rule_in_mixins :: "ur_entity_t \<Rightarrow> 16 word \<Rightarrow> ur_rule_t option" where
  "find_rule_in_mixins ent signal_id = find_rule_in_mixin_list (mixins ent) signal_id"

text \<open>
  Step 3 of \<^verbatim>\<open>cascading_lookup\<close>, the loop
  \<^verbatim>\<open>while (state != NULL && state->parent_id != 0)\<close>. Nothing in the code bounds the
  walk: on a cyclic parent chain without a matching rule it does not return, which is
  the value \<open>None\<close> here. \<open>Some None\<close> is the return of \<^verbatim>\<open>NULL\<close>.
\<close>

partial_function (option) hsm_bubble_up ::
  "ur_entity_t \<Rightarrow> ur_state_def_t option \<Rightarrow> 16 word \<Rightarrow> ur_rule_t option option" where
  "hsm_bubble_up ent state signal_id =
     (case state of
        None \<Rightarrow> Some None
      | Some st \<Rightarrow>
          if st_parent_id st = 0 then Some None
          else
            (case find_state ent (st_parent_id st) of
               None \<Rightarrow> Some None
             | Some p \<Rightarrow>
                 (case find_rule_in_state p signal_id of
                    Some r \<Rightarrow> Some (Some r)
                  | None \<Rightarrow> hsm_bubble_up ent (Some p) signal_id)))"

declare hsm_bubble_up.simps [code]

definition cascading_lookup :: "ur_entity_t \<Rightarrow> 16 word \<Rightarrow> ur_rule_t option option" where
  "cascading_lookup ent signal_id =
     (let state = find_state ent (current_state ent) in
      case (case state of None \<Rightarrow> None | Some st \<Rightarrow> find_rule_in_state st signal_id) of
        Some r \<Rightarrow> Some (Some r)
      | None \<Rightarrow>
          (case find_rule_in_mixins ent signal_id of
             Some r \<Rightarrow> Some (Some r)
           | None \<Rightarrow> hsm_bubble_up ent state signal_id))"

text \<open>The four assignments that reset the flow coroutine state.\<close>

definition flow_reset :: "ur_entity_t \<Rightarrow> ur_entity_t" where
  "flow_reset ent =
     ent\<lparr>flow_line := 0, flow_wait_sig := SIG_NONE, flow_wait_until := 0,
         ent_flags := ent_flags ent AND NOT UR_FLAG_FLOW_RUNNING\<rparr>"

definition ur_set_state ::
  "action_env \<Rightarrow> 32 word \<Rightarrow> ur_entity_t \<times> call list \<Rightarrow> 16 word
     \<Rightarrow> ur_err_t \<times> ur_entity_t \<times> call list" where
  "ur_set_state aenv now s state_id =
     (case s of (ent, log) \<Rightarrow>
      (case find_state ent state_id of
         None \<Rightarrow> (UR_ERR_NOT_FOUND, ent, log)
       | Some new_state \<Rightarrow>
           (let trans_sig = ur_signal_create SIG_NONE (ent_id ent) now;
                exited =
                  (if current_state ent \<noteq> 0 then
                     (case (case find_state ent (current_state ent) of
                              None \<Rightarrow> (ent, log)
                            | Some old_state \<Rightarrow>
                                (case st_on_exit old_state of
                                   None \<Rightarrow> (ent, log)
                                 | Some f \<Rightarrow>
                                     (snd (aenv f ent (trans_sig\<lparr>sig_id := SIG_SYS_EXIT\<rparr>)),
                                      log @ [OnExitCall f (trans_sig\<lparr>sig_id := SIG_SYS_EXIT\<rparr>)]))) of
                        (ent', log') \<Rightarrow> (flow_reset ent', log'))
                   else (ent, log));
                ent2 = (fst exited)\<lparr>current_state := state_id\<rparr>;
                log1 = snd exited
            in (case st_on_entry new_state of
                  None \<Rightarrow> (UR_OK, ent2, log1)
                | Some f \<Rightarrow>
                    (UR_OK, snd (aenv f ent2 (trans_sig\<lparr>sig_id := SIG_SYS_ENTRY\<rparr>)),
                     log1 @ [OnEntryCall f (trans_sig\<lparr>sig_id := SIG_SYS_ENTRY\<rparr>)])))))"

text \<open>
  \<^verbatim>\<open>run_middleware_chain\<close>, entered at index \<open>i\<close>. The loop reads
  \<^verbatim>\<open>ent->middleware_count\<close> and \<^verbatim>\<open>ent->middleware[i]\<close> afresh in every round, after
  the previous middleware may have written to the entity. The array has
  \<open>UR_CFG_MAX_MIDDLEWARE\<close> slots, which bounds the index.
\<close>

function run_middleware_chain_from ::
  "mw_env \<Rightarrow> nat \<Rightarrow> ur_entity_t \<Rightarrow> ur_signal_t \<Rightarrow> call list
     \<Rightarrow> ur_mw_result_t \<times> ur_entity_t \<times> ur_signal_t \<times> call list" where
  "run_middleware_chain_from menv i ent sig log =
     (if i < length (middleware ent) \<and> i < UR_CFG_MAX_MIDDLEWARE then
        let m = middleware ent ! i in
        (case mw_fn m of
           Some f \<Rightarrow>
             if mw_enabled m \<noteq> 0 then
               (case menv f ent sig (mw_ctx m) of (result, ent', sig') \<Rightarrow>
                  if result = UR_MW_FILTERED \<or> result = UR_MW_HANDLED
                  then (result, ent', sig', log @ [MiddlewareCall f sig])
                  else run_middleware_chain_from menv (Suc i) ent' sig'
                         (log @ [MiddlewareCall f sig]))
             else run_middleware_chain_from menv (Suc i) ent sig log
         | None \<Rightarrow> run_middleware_chain_from menv (Suc i) ent sig log)
      else (UR_MW_CONTINUE, ent, sig, log))"
  by pat_completeness auto
termination
  by (relation "measure (\<lambda>(menv, i, ent, sig, log). UR_CFG_MAX_MIDDLEWARE - i)") auto

declare run_middleware_chain_from.simps [simp del]

definition run_middleware_chain ::
  "mw_env \<Rightarrow> ur_entity_t \<Rightarrow> ur_signal_t \<Rightarrow> call list
     \<Rightarrow> ur_mw_result_t \<times> ur_entity_t \<times> ur_signal_t \<times> call list" where
  "run_middleware_chain menv ent sig log = run_middleware_chain_from menv 0 ent sig log"

text \<open>
  \<^verbatim>\<open>ur_dispatch\<close>, with the FreeRTOS build (\<^verbatim>\<open>UR_CFG_USE_FREERTOS\<close>), middleware and
  HSM enabled, tracing and logging off (the defaults of ur\_config.h).

  \<open>dispatch_rules\<close> is the second half of the function, from the comment
  \<^verbatim>\<open>/* Cascading rule lookup */\<close> to the end: the lookup, the rule's action, and the
  transition through \<^verbatim>\<open>execute_transition\<close>, which only calls \<^verbatim>\<open>ur_set_state\<close> and
  whose error return \<^verbatim>\<open>ur_dispatch\<close> drops. \<open>now\<close> is the clock reading of
  \<^verbatim>\<open>ur_signal_create\<close> in \<^verbatim>\<open>ur_set_state\<close>. The result is \<open>None\<close> where the rule
  lookup does not return.
\<close>

definition dispatch_rules ::
  "action_env \<Rightarrow> 32 word \<Rightarrow> ur_entity_t \<Rightarrow> ur_signal_t \<Rightarrow> call list
     \<Rightarrow> (ur_err_t \<times> ur_entity_t \<times> call list) option" where
  "dispatch_rules aenv now ent sig log =
     (case cascading_lookup ent (sig_id sig) of
        None \<Rightarrow> None
      | Some None \<Rightarrow> Some (UR_OK, ent, log)
      | Some (Some rule) \<Rightarrow>
          (case (case rule_action rule of
                   None \<Rightarrow> (rule_next_state rule, ent, log)
                 | Some f \<Rightarrow>
                     (case aenv f ent sig of (action_result, ent') \<Rightarrow>
                        (if action_result \<noteq> 0 then action_result else rule_next_state rule,
                         ent', log @ [RuleActionCall f sig]))) of
             (next_state, ent2, log2) \<Rightarrow>
               if next_state \<noteq> 0 \<and> next_state \<noteq> current_state ent2
               then (case ur_set_state aenv now (ent2, log2) next_state of
                       (err, ent3, log3) \<Rightarrow> Some (UR_OK, ent3, log3))
               else Some (UR_OK, ent2, log2)))"

text \<open>
  The first half: the flag test, \<^verbatim>\<open>xQueueReceive\<close> (it takes the oldest signal; an
  empty inbox is the timeout return), and the middleware chain.
\<close>

definition ur_dispatch ::
  "action_env \<Rightarrow> mw_env \<Rightarrow> 32 word \<Rightarrow> ur_entity_t \<times> call list
     \<Rightarrow> (ur_err_t \<times> ur_entity_t \<times> call list) option" where
  "ur_dispatch aenv menv now s =
     (case s of (ent, log) \<Rightarrow>
      if ent_flags ent AND UR_FLAG_ACTIVE = 0 \<or> ent_flags ent AND UR_FLAG_SUSPENDED \<noteq> 0
      then Some (UR_ERR_INVALID_STATE, ent, log)
      else
        (case inbox ent of
           [] \<Rightarrow> Some (UR_ERR_TIMEOUT, ent, log)
         | sig0 # rest \<Rightarrow>
             (case run_middleware_chain menv (ent\<lparr>inbox := rest\<rparr>) sig0 log of
                (mw_result, ent1, sig, log1) \<Rightarrow>
                  if mw_result = UR_MW_FILTERED then Some (UR_OK, ent1, log1)
                  else if mw_result = UR_MW_HANDLED then Some (UR_OK, ent1, log1)
                  else dispatch_rules aenv now ent1 sig log1)))"

text \<open>
  What the dispatcher owns of an entity's state machine: the current state id and the
  flow coroutine state (line, awaited signal, wake time, flow-running flag).
\<close>

definition fsm_fields :: "ur_entity_t \<Rightarrow> 16 word \<times> 16 word \<times> 16 word \<times> 32 word \<times> 8 word" where
  "fsm_fields ent =
     (current_state ent, flow_line ent, flow_wait_sig ent, flow_wait_until ent,
      ent_flags ent AND UR_FLAG_FLOW_RUNNING)"

section \<open>Access control list (ur\_acl.c, ur\_acl.h)\<close>

definition UR_CFG_ACL_MAX_RULES :: nat where
  "UR_CFG_ACL_MAX_RULES = 32"

text \<open>
  \<^verbatim>\<open>ur_acl_action_t\<close>. A rule stores its action in a \<^verbatim>\<open>uint8_t\<close> and
  \<^verbatim>\<open>ur_acl_check\<close> returns that byte cast to the enum, so actions are bytes here.
\<close>

definition UR_ACL_DENY :: "8 word" where "UR_ACL_DENY = 0"
definition UR_ACL_ALLOW :: "8 word" where "UR_ACL_ALLOW = 1"
definition UR_ACL_LOG :: "8 word" where "UR_ACL_LOG = 2"
definition UR_ACL_TRANSFORM :: "8 word" where "UR_ACL_TRANSFORM = 3"

definition UR_ACL_SRC_ANY :: "16 word" where "UR_ACL_SRC_ANY = 0x0000"
definition UR_ACL_SRC_LOCAL :: "16 word" where "UR_ACL_SRC_LOCAL = 0xFFFE"
definition UR_ACL_SRC_EXTERNAL :: "16 word" where "UR_ACL_SRC_EXTERNAL = 0xFFFF"

definition UR_ACL_SIG_ANY :: "16 word" where "UR_ACL_SIG_ANY = 0x0000"
definition UR_ACL_SIG_SYSTEM :: "16 word" where "UR_ACL_SIG_SYSTEM = 0x00FF"
definition UR_ACL_SIG_USER :: "16 word" where "UR_ACL_SIG_USER = 0xFFFF"

record ur_acl_rule_t =
  acl_src_id :: "16 word"
  acl_signal_id :: "16 word"
  acl_action :: "8 word"
  acl_priority :: "8 word"
  acl_flags :: "8 word"

datatype ur_acl_default_t = UR_ACL_DEFAULT_ALLOW | UR_ACL_DEFAULT_DENY

record acl_entry_t =
  acl_entity_id :: "16 word"
  acl_rules :: "ur_acl_rule_t list"
  acl_default_policy :: ur_acl_default_t
  acl_transform_fn :: "fn_ptr option"
  acl_transform_ctx :: nat

record ur_acl_stats_t =
  checked_count :: "32 word"
  allowed_count :: "32 word"
  denied_count :: "32 word"
  logged_count :: "32 word"
  transformed_count :: "32 word"
  default_count :: "32 word"

record acl_state =
  acl_entries :: "acl_entry_t list"
  acl_stats :: ur_acl_stats_t
  acl_initialized :: bool

text \<open>
  A transform callback (\<^verbatim>\<open>ur_acl_transform_fn_t\<close>) gets the signal and its context,
  may write to the signal, and answers whether to allow it.
\<close>

type_synonym transform_env = "fn_ptr \<Rightarrow> ur_signal_t \<Rightarrow> nat \<Rightarrow> bool \<times> ur_signal_t"

definition find_acl_entry :: "acl_state \<Rightarrow> 16 word \<Rightarrow> acl_entry_t option" where
  "find_acl_entry g entity_id = find (\<lambda>e. acl_entity_id e = entity_id) (acl_entries g)"

definition match_source :: "16 word \<Rightarrow> 16 word \<Rightarrow> bool" where
  "match_source rule_src actual_src =
     (if rule_src = UR_ACL_SRC_ANY then True
      else if rule_src = UR_ACL_SRC_LOCAL
        then actual_src \<ge> 1 \<and> unat actual_src \<le> UR_CFG_MAX_ENTITIES
      else if rule_src = UR_ACL_SRC_EXTERNAL
        then actual_src = 0 \<or> unat actual_src > UR_CFG_MAX_ENTITIES
      else rule_src = actual_src)"

definition match_signal :: "16 word \<Rightarrow> 16 word \<Rightarrow> bool" where
  "match_signal rule_sig actual_sig =
     (if rule_sig = UR_ACL_SIG_ANY then True
      else if rule_sig = UR_ACL_SIG_SYSTEM
        then actual_sig \<ge> 0x0001 \<and> actual_sig \<le> 0x00FF
      else if rule_sig = UR_ACL_SIG_USER
        then actual_sig \<ge> 0x0100
      else rule_sig = actual_sig)"

text \<open>The loop of \<^verbatim>\<open>find_matching_rule\<close> over the first \<^verbatim>\<open>rule_count\<close> rules.\<close>

fun find_matching_rule_in :: "ur_acl_rule_t list \<Rightarrow> ur_signal_t \<Rightarrow> ur_acl_rule_t option" where
  "find_matching_rule_in [] sig = None"
| "find_matching_rule_in (rule # rules) sig =
     (if match_source (acl_src_id rule) (sig_src_id sig) \<and>
         match_signal (acl_signal_id rule) (sig_id sig)
      then Some rule
      else find_matching_rule_in rules sig)"

definition find_matching_rule :: "acl_entry_t \<Rightarrow> ur_signal_t \<Rightarrow> ur_acl_rule_t option" where
  "find_matching_rule entry sig = find_matching_rule_in (acl_rules entry) sig"

text \<open>
  \<^verbatim>\<open>ur_acl_check\<close> and \<^verbatim>\<open>ur_acl_filter\<close> for non-\<^verbatim>\<open>NULL\<close> arguments; the entity is
  only read for its id. Logging is off.
\<close>

definition ur_acl_check :: "acl_state \<Rightarrow> 16 word \<Rightarrow> ur_signal_t \<Rightarrow> 8 word \<times> acl_state" where
  "ur_acl_check g eid sig =
     (if \<not> acl_initialized g then (UR_ACL_ALLOW, g)
      else
        let g1 = g\<lparr>acl_stats := (acl_stats g)\<lparr>checked_count := checked_count (acl_stats g) + 1\<rparr>\<rparr> in
        case find_acl_entry g1 eid of
          None \<Rightarrow>
            (UR_ACL_ALLOW,
             g1\<lparr>acl_stats := (acl_stats g1)\<lparr>default_count := default_count (acl_stats g1) + 1\<rparr>\<rparr>)
        | Some entry \<Rightarrow>
            (case find_matching_rule entry sig of
               Some rule \<Rightarrow> (acl_action rule, g1)
             | None \<Rightarrow>
                 (if acl_default_policy entry = UR_ACL_DEFAULT_ALLOW then UR_ACL_ALLOW else UR_ACL_DENY,
                  g1\<lparr>acl_stats := (acl_stats g1)\<lparr>default_count := default_count (acl_stats g1) + 1\<rparr>\<rparr>)))"

definition count_allowed :: "acl_state \<Rightarrow> acl_state" where
  "count_allowed g = g\<lparr>acl_stats := (acl_stats g)\<lparr>allowed_count := allowed_count (acl_stats g) + 1\<rparr>\<rparr>"

definition count_denied :: "acl_state \<Rightarrow> acl_state" where
  "count_denied g = g\<lparr>acl_stats := (acl_stats g)\<lparr>denied_count := denied_count (acl_stats g) + 1\<rparr>\<rparr>"

definition count_logged :: "acl_state \<Rightarrow> acl_state" where
  "count_logged g = g\<lparr>acl_stats := (acl_stats g)\<lparr>logged_count := logged_count (acl_stats g) + 1\<rparr>\<rparr>"

definition count_transformed :: "acl_state \<Rightarrow> acl_state" where
  "count_transformed g =
     g\<lparr>acl_stats := (acl_stats g)\<lparr>transformed_count := transformed_count (acl_stats g) + 1\<rparr>\<rparr>"

definition ur_acl_filter ::
  "transform_env \<Rightarrow> acl_state \<Rightarrow> 16 word \<Rightarrow> ur_signal_t \<Rightarrow> bool \<times> ur_signal_t \<times> acl_state" where
  "ur_acl_filter tenv g eid sig =
     (case ur_acl_check g eid sig of (action, g1) \<Rightarrow>
        if action = UR_ACL_ALLOW then (True, sig, count_allowed g1)
        else if action = UR_ACL_DENY then (False, sig, count_denied g1)
        else if action = UR_ACL_LOG then (True, sig, count_allowed (count_logged g1))
        else if action = UR_ACL_TRANSFORM then
          (case find_acl_entry g1 eid of
             Some entry \<Rightarrow>
               (case acl_transform_fn entry of
                  Some f \<Rightarrow>
                    (case tenv f sig (acl_transform_ctx entry) of (allow, sig') \<Rightarrow>
                       if allow then (True, sig', count_allowed (count_transformed g1))
                       else (False, sig', count_denied g1))
                | None \<Rightarrow> (True, sig, count_allowed g1))
           | None \<Rightarrow> (True, sig, count_allowed g1))
        else (True, sig, count_allowed g1))"

text \<open>
  \<^verbatim>\<open>ur_acl_add_rule\<close> on the rule table of an entry. A table that already holds
  \<open>UR_CFG_ACL_MAX_RULES\<close> rules is left as it is and the result is
  \<^verbatim>\<open>UR_ERR_NO_MEMORY\<close>. Otherwise the first loop finds the insert position
  (\<open>acl_insert_pos\<close>), the second shifts the tail up by one slot and the rule is written
  into the gap (\<open>acl_insert_rule\<close>).
\<close>

fun acl_insert_pos :: "ur_acl_rule_t list \<Rightarrow> ur_acl_rule_t \<Rightarrow> nat" where
  "acl_insert_pos [] rule = 0"
| "acl_insert_pos (r # rs) rule =
     (if acl_priority rule < acl_priority r then 0 else Suc (acl_insert_pos rs rule))"

definition acl_insert_rule :: "ur_acl_rule_t list \<Rightarrow> ur_acl_rule_t \<Rightarrow> ur_acl_rule_t list" where
  "acl_insert_rule rules rule =
     (let insert_pos = acl_insert_pos rules rule
      in take insert_pos rules @ [rule] @ drop insert_pos rules)"

definition acl_add_rule_to ::
  "ur_acl_rule_t list \<Rightarrow> ur_acl_rule_t \<Rightarrow> ur_err_t \<times> ur_acl_rule_t list" where
  "acl_add_rule_to rules rule =
     (if UR_CFG_ACL_MAX_RULES \<le> length rules then (UR_ERR_NO_MEMORY, rules)
      else (UR_OK, acl_insert_rule rules rule))"

text \<open>
  Test table of scenario 5 of the specification:
  \<open>[{LOCAL, ANY, ALLOW}, {EXTERNAL, FACTORY_RESET (0x0110), DENY}]\<close>, default ALLOW, and a
  third rule with action TRANSFORM for signal 0x0120, with no transform callback set.
\<close>

definition ex_acl :: acl_state where
  "ex_acl =
     \<lparr>acl_entries =
        [\<lparr>acl_entity_id = 3,
          acl_rules =
            [\<lparr>acl_src_id = UR_ACL_SRC_LOCAL, acl_signal_id = UR_ACL_SIG_ANY,
              acl_action = UR_ACL_ALLOW, acl_priority = 0, acl_flags = 0\<rparr>,
             \<lparr>acl_src_id = UR_ACL_SRC_EXTERNAL, acl_signal_id = 0x0110,
              acl_action = UR_ACL_DENY, acl_priority = 0, acl_flags = 0\<rparr>,
             \<lparr>acl_src_id = UR_ACL_SRC_EXTERNAL, acl_signal_id = 0x0120,
              acl_action = UR_ACL_TRANSFORM, acl_priority = 1, acl_flags = 0\<rparr>],
          acl_default_policy = UR_ACL_DEFAULT_ALLOW,
          acl_transform_fn = None, acl_transform_ctx = 0\<rparr>],
      acl_stats = \<lparr>checked_count = 0, allowed_count = 0, denied_count = 0, logged_count = 0,
                   transformed_count = 0, default_count = 0\<rparr>,
      acl_initialized = True\<rparr>"

definition ex_tenv :: transform_env where
  "ex_tenv f sig ctx = (False, sig\<lparr>sig_id := 0\<rparr>)"

section \<open>Entity registry and emission (ur\_core.c)\<close>

text \<open>
  \<^verbatim>\<open>g_entity_registry\<close>: slot \<open>i\<close> holds a pointer to an entity or \<^verbatim>\<open>NULL\<close>. The model
  keeps the entity itself in the slot, so that an enqueue through the pointer is an
  update of the slot.
\<close>

type_synonym registry = "nat \<Rightarrow> ur_entity_t option"

definition ur_get_entity :: "registry \<Rightarrow> 16 word \<Rightarrow> ur_entity_t option" where
  "ur_get_entity reg eid =
     (if eid = 0 \<or> unat eid > UR_CFG_MAX_ENTITIES then None else reg (unat eid - 1))"

text \<open>
  \<^verbatim>\<open>ur_emit\<close> on a non-\<^verbatim>\<open>NULL\<close> target, timestamps enabled
  (\<^verbatim>\<open>UR_CFG_ENABLE_TIMESTAMPS\<close>); \<open>now\<close> is the reading of \<^verbatim>\<open>ur_get_time_ms\<close>.
  \<^verbatim>\<open>xQueueSend\<close> with no wait appends to a queue of fewer than \<open>UR_CFG_INBOX_SIZE\<close>
  signals and fails on a full one; the ISR branch (\<^verbatim>\<open>xQueueSendFromISR\<close>) does the
  same to the queue.
\<close>

definition ur_emit :: "32 word \<Rightarrow> ur_entity_t \<Rightarrow> ur_signal_t \<Rightarrow> ur_err_t \<times> ur_entity_t" where
  "ur_emit now target sig =
     (let sig1 = (if sig_timestamp sig = 0 then sig\<lparr>sig_timestamp := now\<rparr> else sig)
      in if length (inbox target) < UR_CFG_INBOX_SIZE
         then (UR_OK, target\<lparr>inbox := inbox target @ [sig1]\<rparr>)
         else (UR_ERR_QUEUE_FULL, target))"

section \<open>Publish/subscribe bus (ur\_bus.c, ur\_bus.h)\<close>

definition UR_CFG_BUS_MAX_TOPICS :: nat where
  "UR_CFG_BUS_MAX_TOPICS = 64"

definition UR_CFG_BUS_MAX_SUBSCRIBERS :: nat where
  "UR_CFG_BUS_MAX_SUBSCRIBERS = 8"

record ur_bus_topic_t =
  topic_id :: "16 word"
  subscribers :: "16 word list"

record ur_bus_stats_t =
  publish_count :: "32 word"
  delivery_count :: "32 word"
  drop_count :: "32 word"
  no_subscriber_count :: "32 word"

record bus_state =
  topics :: "ur_bus_topic_t list"
  bus_stats :: ur_bus_stats_t
  bus_initialized :: bool

definition ur_bus_init :: "bus_state \<Rightarrow> bus_state" where
  "ur_bus_init g =
     \<lparr>topics = [],
      bus_stats = \<lparr>publish_count = 0, delivery_count = 0, drop_count = 0, no_subscriber_count = 0\<rparr>,
      bus_initialized = True\<rparr>"

definition find_topic :: "bus_state \<Rightarrow> 16 word \<Rightarrow> ur_bus_topic_t option" where
  "find_topic g tid = find (\<lambda>t. topic_id t = tid) (topics g)"

text \<open>
  \<^verbatim>\<open>ur_subscribe\<close> for the entity with id \<open>eid\<close>: \<^verbatim>\<open>find_or_create_topic\<close>, the
  duplicate test \<^verbatim>\<open>is_subscribed_to_topic\<close>, and the append to the subscriber list.
\<close>

fun add_subscriber :: "ur_bus_topic_t list \<Rightarrow> 16 word \<Rightarrow> 16 word \<Rightarrow> ur_err_t \<times> ur_bus_topic_t list" where
  "add_subscriber [] tid eid = (UR_OK, [])"
| "add_subscriber (t # ts) tid eid =
     (if topic_id t = tid then
        (if eid \<in> set (subscribers t) then (UR_OK, t # ts)
         else if length (subscribers t) \<ge> UR_CFG_BUS_MAX_SUBSCRIBERS then (UR_ERR_NO_MEMORY, t # ts)
         else (UR_OK, t\<lparr>subscribers := subscribers t @ [eid]\<rparr> # ts))
      else (case add_subscriber ts tid eid of (err, ts') \<Rightarrow> (err, t # ts')))"

definition ur_subscribe :: "bus_state \<Rightarrow> 16 word \<Rightarrow> 16 word \<Rightarrow> ur_err_t \<times> bus_state" where
  "ur_subscribe g eid tid =
     (let g1 = (if \<not> bus_initialized g then ur_bus_init g else g) in
      case find_topic g1 tid of
        Some t \<Rightarrow> (case add_subscriber (topics g1) tid eid of (err, ts) \<Rightarrow> (err, g1\<lparr>topics := ts\<rparr>))
      | None \<Rightarrow>
          if length (topics g1) \<ge> UR_CFG_BUS_MAX_TOPICS then (UR_ERR_NO_MEMORY, g1)
          else (UR_OK, g1\<lparr>topics := topics g1 @ [\<lparr>topic_id = tid, subscribers = [eid]\<rparr>]\<rparr>))"

text \<open>
  The delivery loop of \<^verbatim>\<open>ur_publish\<close>, entered at index \<open>i\<close> with the subscribers
  from \<open>i\<close> on; \<open>clock i\<close> is the clock reading of the \<^verbatim>\<open>ur_emit\<close> call of round \<open>i\<close>.
  The state is the registry, the bus statistics and the local \<^verbatim>\<open>delivered\<close>.
\<close>

fun publish_loop ::
  "(nat \<Rightarrow> 32 word) \<Rightarrow> ur_signal_t \<Rightarrow> nat \<Rightarrow> 16 word list
     \<Rightarrow> registry \<times> ur_bus_stats_t \<times> nat \<Rightarrow> registry \<times> ur_bus_stats_t \<times> nat" where
  "publish_loop clock sig i [] st = st"
| "publish_loop clock sig i (s # ss) (reg, stats, delivered) =
     (case ur_get_entity reg s of
        None \<Rightarrow> publish_loop clock sig (Suc i) ss (reg, stats, delivered)
      | Some ent \<Rightarrow>
          (case ur_emit (clock i) ent sig of (err, ent') \<Rightarrow>
             if err = UR_OK
             then publish_loop clock sig (Suc i) ss
                    (reg(unat s - 1 := Some ent'),
                     stats\<lparr>delivery_count := delivery_count stats + 1\<rparr>, Suc delivered)
             else publish_loop clock sig (Suc i) ss
                    (reg, stats\<lparr>drop_count := drop_count stats + 1\<rparr>, delivered)))"

definition ur_publish ::
  "(nat \<Rightarrow> 32 word) \<Rightarrow> ur_signal_t \<Rightarrow> registry \<times> bus_state \<Rightarrow> nat \<times> registry \<times> bus_state" where
  "ur_publish clock sig w =
     (case w of (reg, g) \<Rightarrow>
      let g1 = (if \<not> bus_initialized g then ur_bus_init g else g);
          g2 = g1\<lparr>bus_stats := (bus_stats g1)\<lparr>publish_count := publish_count (bus_stats g1) + 1\<rparr>\<rparr>
      in case find_topic g2 (sig_id sig) of
           None \<Rightarrow>
             (0, reg, g2\<lparr>bus_stats := (bus_stats g2)
                       \<lparr>no_subscriber_count := no_subscriber_count (bus_stats g2) + 1\<rparr>\<rparr>)
         | Some topic \<Rightarrow>
             if subscribers topic = [] then
               (0, reg, g2\<lparr>bus_stats := (bus_stats g2)
                         \<lparr>no_subscriber_count := no_subscriber_count (bus_stats g2) + 1\<rparr>\<rparr>)
             else
               (case publish_loop clock sig 0 (subscribers topic) (reg, bus_stats g2, 0) of
                  (reg', stats', delivered) \<Rightarrow> (delivered, reg', g2\<lparr>bus_stats := stats'\<rparr>)))"

text \<open>Whether the inbox of the entity registered under \<open>eid\<close> has a free slot.\<close>

definition has_free_slot :: "registry \<Rightarrow> 16 word \<Rightarrow> bool" where
  "has_free_slot reg eid =
     (case ur_get_entity reg eid of
        None \<Rightarrow> False
      | Some ent \<Rightarrow> length (inbox ent) < UR_CFG_INBOX_SIZE)"

section \<open>Signal codec (ur\_codec.c, ur\_codec.h)\<close>

definition UR_CODEC_SYNC_BYTE :: "8 word" where "UR_CODEC_SYNC_BYTE = 0x55"
definition UR_CODEC_HEADER_SIZE :: nat where "UR_CODEC_HEADER_SIZE = 7"
definition UR_CODEC_CRC_SIZE :: nat where "UR_CODEC_CRC_SIZE = 2"

definition crc16_table :: "16 word list" where
  "crc16_table =
     [
      0x0000, 0x1021, 0x2042, 0x3063, 0x4084, 0x50A5, 0x60C6, 0x70E7,
      0x8108, 0x9129, 0xA14A, 0xB16B, 0xC18C, 0xD1AD, 0xE1CE, 0xF1EF,
      0x1231, 0x0210, 0x3273, 0x2252, 0x52B5, 0x4294, 0x72F7, 0x62D6,
      0x9339, 0x8318, 0xB37B, 0xA35A, 0xD3BD, 0xC39C, 0xF3FF, 0xE3DE,
      0x2462, 0x3443, 0x0420, 0x1401, 0x64E6, 0x74C7, 0x44A4, 0x5485,
      0xA56A, 0xB54B, 0x8528, 0x9509, 0xE5EE, 0xF5CF, 0xC5AC, 0xD58D,
      0x3653, 0x2672, 0x1611, 0x0630, 0x76D7, 0x66F6, 0x5695, 0x46B4,
      0xB75B, 0xA77A, 0x9719, 0x8738, 0xF7DF, 0xE7FE, 0xD79D, 0xC7BC,
      0x48C4, 0x58E5, 0x6886, 0x78A7, 0x0840, 0x1861, 0x2802, 0x3823,
      0xC9CC, 0xD9ED, 0xE98E, 0xF9AF, 0x8948, 0x9969, 0xA90A, 0xB92B,
      0x5AF5, 0x4AD4, 0x7AB7, 0x6A96, 0x1A71, 0x0A50, 0x3A33, 0x2A12,
      0xDBFD, 0xCBDC, 0xFBBF, 0xEB9E, 0x9B79, 0x8B58, 0xBB3B, 0xAB1A,
      0x6CA6, 0x7C87, 0x4CE4, 0x5CC5, 0x2C22, 0x3C03, 0x0C60, 0x1C41,
      0xEDAE, 0xFD8F, 0xCDEC, 0xDDCD, 0xAD2A, 0xBD0B, 0x8D68, 0x9D49,
      0x7E97, 0x6EB6, 0x5ED5, 0x4EF4, 0x3E13, 0x2E32, 0x1E51, 0x0E70,
      0xFF9F, 0xEFBE, 0xDFDD, 0xCFFC, 0xBF1B, 0xAF3A, 0x9F59, 0x8F78,
      0x9188, 0x81A9, 0xB1CA, 0xA1EB, 0xD10C, 0xC12D, 0xF14E, 0xE16F,
      0x1080, 0x00A1, 0x30C2, 0x20E3, 0x5004, 0x4025, 0x7046, 0x6067,
      0x83B9, 0x9398, 0xA3FB, 0xB3DA, 0xC33D, 0xD31C, 0xE37F, 0xF35E,
      0x02B1, 0x1290, 0x22F3, 0x32D2, 0x4235, 0x5214, 0x6277, 0x7256,
      0xB5EA, 0xA5CB, 0x95A8, 0x8589, 0xF56E, 0xE54F, 0xD52C, 0xC50D,
      0x34E2, 0x24C3, 0x14A0, 0x0481, 0x7466, 0x6447, 0x5424, 0x4405,
      0xA7DB, 0xB7FA, 0x8799, 0x97B8, 0xE75F, 0xF77E, 0xC71D, 0xD73C,
      0x26D3, 0x36F2, 0x0691, 0x16B0, 0x6657, 0x7676, 0x4615, 0x5634,
      0xD94C, 0xC96D, 0xF90E, 0xE92F, 0x99C8, 0x89E9, 0xB98A, 0xA9AB,
      0x5844, 0x4865, 0x7806, 0x6827, 0x18C0, 0x08E1, 0x3882, 0x28A3,
      0xCB7D, 0xDB5C, 0xEB3F, 0xFB1E, 0x8BF9, 0x9BD8, 0xABBB, 0xBB9A,
      0x4A75, 0x5A54, 0x6A37, 0x7A16, 0x0AF1, 0x1AD0, 0x2AB3, 0x3A92,
      0xFD2E, 0xED0F, 0xDD6C, 0xCD4D, 0xBDAA, 0xAD8B, 0x9DE8, 0x8DC9,
      0x7C26, 0x6C07, 0x5C64, 0x4C45, 0x3CA2, 0x2C83, 0x1CE0, 0x0CC1,
      0xEF1F, 0xFF3E, 0xCF5D, 0xDF7C, 0xAF9B, 0xBFBA, 0x8FD9, 0x9FF8,
      0x6E17, 0x7E36, 0x4E55, 0x5E74, 0x2E93, 0x3EB2, 0x0ED1, 0x1EF0
     ]"

text \<open>
  \<^verbatim>\<open>ur_crc16\<close>: \<open>crc16_step\<close> is the body of the loop, on the \<^verbatim>\<open>uint16_t\<close> register
  (the shift left drops the high byte when the result is stored).
\<close>

definition crc16_step :: "16 word \<Rightarrow> 8 word \<Rightarrow> 16 word" where
  "crc16_step crc byte =
     push_bit 8 crc XOR crc16_table ! unat ((drop_bit 8 crc XOR ucast byte) AND 0xFF)"

definition ur_crc16 :: "8 word list \<Rightarrow> 16 word" where
  "ur_crc16 data = foldl crc16_step 0xFFFF data"

text \<open>
  CRC-16/CCITT written out bit by bit, for comparison with the table: the register is
  shifted left once per bit, most significant bit first, and the polynomial 0x1021 is
  added whenever a 1 leaves the register.
\<close>

definition crc_ccitt_shift :: "16 word \<Rightarrow> 16 word" where
  "crc_ccitt_shift crc =
     (if bit crc 15 then push_bit 1 crc XOR 0x1021 else push_bit 1 crc)"

definition crc_ccitt_byte :: "16 word \<Rightarrow> 8 word \<Rightarrow> 16 word" where
  "crc_ccitt_byte crc byte = (crc_ccitt_shift ^^ 8) (crc XOR push_bit 8 (ucast byte))"

definition crc_ccitt :: "8 word list \<Rightarrow> 16 word" where
  "crc_ccitt data = foldl crc_ccitt_byte 0xFFFF data"

text \<open>
  \<open>table_from b xs\<close>: the list \<open>xs\<close> holds the CRC of the single bytes \<open>b\<close>, \<open>b + 1\<close>,
  ... in this order, each computed bit by bit from a zero register.
\<close>

fun table_from :: "8 word \<Rightarrow> 16 word list \<Rightarrow> bool" where
  "table_from b [] = True"
| "table_from b (x # xs) = (x = crc_ccitt_byte 0 b \<and> table_from (b + 1) xs)"

text \<open>
  The schema table of \<^verbatim>\<open>g_codec\<close>: the binary codec reads only the signal id and the
  payload size (\<^verbatim>\<open>uint8_t\<close>) of a schema.
\<close>

record ur_codec_schema_t =
  schema_signal_id :: "16 word"
  schema_payload_size :: "8 word"

record codec_state =
  schemas :: "ur_codec_schema_t list"

definition ur_codec_get_schema :: "codec_state \<Rightarrow> 16 word \<Rightarrow> ur_codec_schema_t option" where
  "ur_codec_get_schema g signal_id = find (\<lambda>s. schema_signal_id s = signal_id) (schemas g)"

text \<open>\<open>write_bytes buf pos bs\<close>: the buffer after \<open>bs\<close> is stored from index \<open>pos\<close> on.\<close>

definition write_bytes :: "8 word list \<Rightarrow> nat \<Rightarrow> 8 word list \<Rightarrow> 8 word list" where
  "write_bytes buf pos bs = take pos buf @ bs @ drop (pos + length bs) buf"

text \<open>
  \<^verbatim>\<open>ur_codec_encode_binary\<close> for non-\<^verbatim>\<open>NULL\<close> arguments. \<open>buffer\<close> is the caller's
  buffer as it is on entry, \<^verbatim>\<open>buf_size\<close> its length. The result is the error code, the
  buffer on return and \<^verbatim>\<open>*out_len\<close> (left at 0 here when the code does not write it).
  \<^verbatim>\<open>memcpy\<close> copies \<open>min payload_size UR_CFG_SIGNAL_PAYLOAD_SIZE\<close> bytes but \<^verbatim>\<open>pos\<close>
  advances by \<^verbatim>\<open>payload_size\<close>: for a schema wider than the signal payload the bytes
  in between are what the buffer held before.
\<close>

definition ur_codec_encode_binary ::
  "codec_state \<Rightarrow> ur_signal_t \<Rightarrow> 8 word list \<Rightarrow> ur_err_t \<times> 8 word list \<times> nat" where
  "ur_codec_encode_binary g sig buffer =
     (let payload_size =
            (case ur_codec_get_schema g (sig_id sig) of
               None \<Rightarrow> UR_CFG_SIGNAL_PAYLOAD_SIZE
             | Some schema \<Rightarrow> unat (schema_payload_size schema));
          total_size = UR_CODEC_HEADER_SIZE + payload_size + UR_CODEC_CRC_SIZE
      in if length buffer < total_size then (UR_ERR_NO_MEMORY, buffer, 0)
         else
           let b1 = write_bytes buffer 0
                      [UR_CODEC_SYNC_BYTE,
                       of_nat (payload_size mod 256),
                       of_nat ((payload_size div 256) mod 256),
                       ucast (sig_id sig AND 0xFF),
                       ucast (drop_bit 8 (sig_id sig) AND 0xFF),
                       ucast (sig_src_id sig AND 0xFF),
                       ucast (drop_bit 8 (sig_src_id sig) AND 0xFF)];
               b2 = write_bytes b1 7
                      (take (min payload_size UR_CFG_SIGNAL_PAYLOAD_SIZE) (sig_payload sig));
               pos = 7 + payload_size;
               crc = ur_crc16 (take (pos - 1) (drop 1 b2));
               b3 = write_bytes b2 pos [ucast (crc AND 0xFF), ucast (drop_bit 8 crc AND 0xFF)]
           in (UR_OK, b3, pos + 2))"

record ur_codec_decode_result_t =
  dec_signal :: ur_signal_t
  dec_consumed :: nat
  dec_complete :: bool

text \<open>The \<^verbatim>\<open>memset\<close> of the result, and of the signal in it.\<close>

definition zero_signal :: ur_signal_t where
  "zero_signal =
     \<lparr>sig_id = 0, sig_src_id = 0, sig_payload = replicate UR_CFG_SIGNAL_PAYLOAD_SIZE 0,
      sig_ptr = 0, sig_timestamp = 0\<rparr>"

definition zero_result :: ur_codec_decode_result_t where
  "zero_result = \<lparr>dec_signal = zero_signal, dec_consumed = 0, dec_complete = False\<rparr>"

text \<open>The scan \<^verbatim>\<open>while (start < len && data[start] != UR_CODEC_SYNC_BYTE) start++\<close>.\<close>

fun find_sync :: "8 word list \<Rightarrow> nat" where
  "find_sync [] = 0"
| "find_sync (b # bs) = (if b \<noteq> UR_CODEC_SYNC_BYTE then Suc (find_sync bs) else 0)"

text \<open>A little-endian 16-bit value from two bytes: \<^verbatim>\<open>lo | (hi << 8)\<close>.\<close>

definition le16 :: "8 word \<Rightarrow> 8 word \<Rightarrow> 16 word" where
  "le16 lo hi = ucast lo OR push_bit 8 (ucast hi)"

definition ur_codec_decode_binary :: "8 word list \<Rightarrow> ur_err_t \<times> ur_codec_decode_result_t" where
  "ur_codec_decode_binary data =
     (let len = length data in
      if len < UR_CODEC_HEADER_SIZE then (UR_ERR_TIMEOUT, zero_result)
      else
        let start = find_sync data in
        if start \<ge> len then (UR_ERR_TIMEOUT, zero_result\<lparr>dec_consumed := len\<rparr>)
        else if len - start < UR_CODEC_HEADER_SIZE
          then (UR_ERR_TIMEOUT, zero_result\<lparr>dec_consumed := start\<rparr>)
        else
          let frame = drop start data;
              payload_len = le16 (frame ! 1) (frame ! 2);
              total_len = UR_CODEC_HEADER_SIZE + unat payload_len + UR_CODEC_CRC_SIZE
          in if len - start < total_len then (UR_ERR_TIMEOUT, zero_result\<lparr>dec_consumed := start\<rparr>)
             else
               let expected_crc = le16 (frame ! (total_len - 2)) (frame ! (total_len - 1));
                   actual_crc = ur_crc16 (take (total_len - 3) (drop 1 frame))
               in if expected_crc \<noteq> actual_crc
                  then (UR_ERR_INVALID_ARG, zero_result\<lparr>dec_consumed := start + 1\<rparr>)
                  else
                    let copy_len = min (unat payload_len) UR_CFG_SIGNAL_PAYLOAD_SIZE
                    in (UR_OK,
                        \<lparr>dec_signal =
                           zero_signal
                             \<lparr>sig_id := le16 (frame ! 3) (frame ! 4),
                              sig_src_id := le16 (frame ! 5) (frame ! 6),
                              sig_payload :=
                                take copy_len (drop UR_CODEC_HEADER_SIZE frame) @
                                replicate (UR_CFG_SIGNAL_PAYLOAD_SIZE - copy_len) 0\<rparr>,
                         dec_consumed = start + total_len,
                         dec_complete = True\<rparr>))"

text \<open>
  Scenario 4 of the specification: the signal
  \<open>{id = 0x0120, src = 7, payload.u32[0] = 0xDEADBEEF, ts = 1234}\<close> (the payload bytes in
  memory order of a little-endian machine), no schema registered, a 16-byte buffer.
\<close>

definition ex_codec_sig :: ur_signal_t where
  "ex_codec_sig =
     \<lparr>sig_id = 0x0120, sig_src_id = 7, sig_payload = [0xEF, 0xBE, 0xAD, 0xDE], sig_ptr = 0,
      sig_timestamp = 1234\<rparr>"

definition ex_codec :: codec_state where
  "ex_codec = \<lparr>schemas = []\<rparr>"

section \<open>Parameter store (ur\_param.c, ur\_param.h)\<close>

definition UR_CFG_PARAM_MAX_STRING_LEN :: nat where
  "UR_CFG_PARAM_MAX_STRING_LEN = 64"

definition SIG_PARAM_CHANGED :: "16 word" where
  "SIG_PARAM_CHANGED = 0x0020"

datatype ur_param_type_t =
    UR_PARAM_TYPE_U8
  | UR_PARAM_TYPE_U16
  | UR_PARAM_TYPE_U32
  | UR_PARAM_TYPE_I8
  | UR_PARAM_TYPE_I16
  | UR_PARAM_TYPE_I32
  | UR_PARAM_TYPE_F32
  | UR_PARAM_TYPE_BOOL
  | UR_PARAM_TYPE_STR
  | UR_PARAM_TYPE_BLOB

definition UR_PARAM_FLAG_PERSIST :: "8 word" where
  "UR_PARAM_FLAG_PERSIST = 0x01"

definition UR_PARAM_FLAG_READONLY :: "8 word" where
  "UR_PARAM_FLAG_READONLY = 0x02"

definition UR_PARAM_FLAG_NOTIFY :: "8 word" where
  "UR_PARAM_FLAG_NOTIFY = 0x04"

definition UR_PARAM_FLAG_DIRTY :: "8 word" where
  "UR_PARAM_FLAG_DIRTY = 0x80"

text \<open>
  \<^verbatim>\<open>ur_param_value_t\<close> is a union of the scalar members with \<^verbatim>\<open>char str[64]\<close> and
  \<^verbatim>\<open>uint8_t blob[64]\<close>: it is modelled by its 64 bytes, a scalar member being the
  first 1, 2 or 4 of them.
\<close>

type_synonym ur_param_value_t = "8 word list"

record ur_param_def_t =
  pd_id :: "16 word"
  pd_type :: ur_param_type_t
  pd_flags :: "8 word"
  pd_name :: string
  pd_size :: "16 word"
  pd_default_val :: ur_param_value_t

text \<open>
  \<^verbatim>\<open>ur_param_entry_t\<close>. \<^verbatim>\<open>ur_param_init\<close> is the only writer of \<^verbatim>\<open>def\<close> and sets it for
  every entry below \<^verbatim>\<open>g_param.count\<close>, so the record holds the definition itself and the
  list \<open>p_entries\<close> holds the entries below \<^verbatim>\<open>count\<close>.
\<close>

record ur_param_entry_t =
  pe_def :: ur_param_def_t
  pe_value :: ur_param_value_t
  pe_flags :: "8 word"

text \<open>
  The storage backend: only its \<^verbatim>\<open>save\<close> callback is reached from the setters. The
  callback gets the key, the type, the value and the size and answers an error code.
\<close>

type_synonym param_save_fn =
  "string \<Rightarrow> ur_param_type_t \<Rightarrow> ur_param_value_t \<Rightarrow> nat \<Rightarrow> ur_err_t"

record ur_param_storage_t =
  stor_save :: "param_save_fn option"

text \<open>
  \<^verbatim>\<open>g_param\<close>, with two logs beside it: the calls of the backend's \<^verbatim>\<open>save\<close> (key and
  value) and the signals handed to \<^verbatim>\<open>ur_publish\<close>, both in the order they were made.
\<close>

record param_state =
  p_entries :: "ur_param_entry_t list"
  p_storage :: "ur_param_storage_t option"
  p_batch_mode :: bool
  p_initialized :: bool
  p_saved :: "(string \<times> ur_param_value_t) list"
  p_published :: "ur_signal_t list"

text \<open>\<^verbatim>\<open>find_entry\<close>: the index of the first entry with the given id.\<close>

definition find_entry :: "param_state \<Rightarrow> 16 word \<Rightarrow> nat option" where
  "find_entry g pid =
     List.find (\<lambda>i. pd_id (pe_def (p_entries g ! i)) = pid) [0..<length (p_entries g)]"

fun get_type_size :: "ur_param_type_t \<Rightarrow> nat" where
  "get_type_size UR_PARAM_TYPE_U8 = 1"
| "get_type_size UR_PARAM_TYPE_I8 = 1"
| "get_type_size UR_PARAM_TYPE_BOOL = 1"
| "get_type_size UR_PARAM_TYPE_U16 = 2"
| "get_type_size UR_PARAM_TYPE_I16 = 2"
| "get_type_size UR_PARAM_TYPE_U32 = 4"
| "get_type_size UR_PARAM_TYPE_I32 = 4"
| "get_type_size UR_PARAM_TYPE_F32 = 4"
| "get_type_size UR_PARAM_TYPE_STR = 0"
| "get_type_size UR_PARAM_TYPE_BLOB = 0"

text \<open>
  \<^verbatim>\<open>notify_change\<close>: the signal carries the parameter id in \<^verbatim>\<open>payload.u16[0]\<close> (low byte
  first) and the address of the entry's value, here one more than the entry's index.
\<close>

definition param_changed_signal :: "16 word \<Rightarrow> nat \<Rightarrow> ur_signal_t" where
  "param_changed_signal param_id i =
     \<lparr>sig_id = SIG_PARAM_CHANGED, sig_src_id = 0,
      sig_payload = [ucast (param_id AND 0xFF), ucast (drop_bit 8 param_id), 0, 0],
      sig_ptr = Suc i, sig_timestamp = 0\<rparr>"

definition notify_change :: "param_state \<Rightarrow> 16 word \<Rightarrow> nat \<Rightarrow> param_state" where
  "notify_change g param_id i =
     g\<lparr>p_published := p_published g @ [param_changed_signal param_id i]\<rparr>"

text \<open>\<^verbatim>\<open>save_entry\<close> on the entry at index \<open>i\<close>.\<close>

definition save_entry :: "param_state \<Rightarrow> nat \<Rightarrow> ur_err_t \<times> param_state" where
  "save_entry g i =
     (case p_storage g of
        None \<Rightarrow> (UR_OK, g)
      | Some storage \<Rightarrow>
          (case stor_save storage of
             None \<Rightarrow> (UR_OK, g)
           | Some save \<Rightarrow>
               let entry = p_entries g ! i; d = pe_def entry in
               if pd_flags d AND UR_PARAM_FLAG_PERSIST = 0 then (UR_OK, g)
               else
                 let sz = (if pd_type d = UR_PARAM_TYPE_STR \<or> pd_type d = UR_PARAM_TYPE_BLOB
                             then unat (pd_size d) else get_type_size (pd_type d));
                     err = save (pd_name d) (pd_type d) (pe_value entry) sz;
                     g1 = g\<lparr>p_saved := p_saved g @ [(pd_name d, pe_value entry)]\<rparr>
                 in if err = UR_OK
                    then (err, g1\<lparr>p_entries := (p_entries g1)
                                   [i := entry\<lparr>pe_flags := pe_flags entry AND NOT UR_PARAM_FLAG_DIRTY\<rparr>]\<rparr>)
                    else (err, g1)))"

text \<open>
  The tail shared by all setters once the value is written: mark the entry dirty, save it
  when the parameter is persistent and no batch is open, notify when it has the NOTIFY flag.
\<close>

definition param_commit_change :: "param_state \<Rightarrow> 16 word \<Rightarrow> nat \<Rightarrow> ur_param_value_t \<Rightarrow> param_state" where
  "param_commit_change g pid i v =
     (let entry = p_entries g ! i; d = pe_def entry;
          g1 = g\<lparr>p_entries := (p_entries g)
                  [i := entry\<lparr>pe_value := v, pe_flags := pe_flags entry OR UR_PARAM_FLAG_DIRTY\<rparr>]\<rparr>;
          g2 = (if \<not> p_batch_mode g1 \<and> pd_flags d AND UR_PARAM_FLAG_PERSIST \<noteq> 0
                then snd (save_entry g1 i) else g1)
      in if pd_flags d AND UR_PARAM_FLAG_NOTIFY \<noteq> 0 then notify_change g2 pid i else g2)"

text \<open>
  \<^verbatim>\<open>PARAM_SET_IMPL(suffix, ctype, member, param_type)\<close>: the macro behind the scalar
  setters. \<open>repr\<close> is the object representation of the new value, so that
  \<^verbatim>\<open>entry->value.member == value\<close> compares the first bytes of the union with it; this
  holds for the integer members and \<^verbatim>\<open>bool\<close>. (\<^verbatim>\<open>float\<close> equality is not equality of
  representations, and \<^verbatim>\<open>ur_param_set_f32\<close> is left out.)
\<close>

definition PARAM_SET_IMPL ::
  "ur_param_type_t \<Rightarrow> 8 word list \<Rightarrow> param_state \<Rightarrow> 16 word \<Rightarrow> ur_err_t \<times> param_state" where
  "PARAM_SET_IMPL param_type repr g pid =
     (case find_entry g pid of
        None \<Rightarrow> (UR_ERR_NOT_FOUND, g)
      | Some i \<Rightarrow>
          let entry = p_entries g ! i; d = pe_def entry in
          if pd_type d \<noteq> param_type then (UR_ERR_INVALID_ARG, g)
          else if pd_flags d AND UR_PARAM_FLAG_READONLY \<noteq> 0 then (UR_ERR_INVALID_STATE, g)
          else if take (length repr) (pe_value entry) = repr then (UR_OK, g)
          else (UR_OK, param_commit_change g pid i (repr @ drop (length repr) (pe_value entry))))"

definition ur_param_set_u8 :: "param_state \<Rightarrow> 16 word \<Rightarrow> 8 word \<Rightarrow> ur_err_t \<times> param_state" where
  "ur_param_set_u8 g pid v = PARAM_SET_IMPL UR_PARAM_TYPE_U8 [v] g pid"

definition ur_param_set_u16 :: "param_state \<Rightarrow> 16 word \<Rightarrow> 16 word \<Rightarrow> ur_err_t \<times> param_state" where
  "ur_param_set_u16 g pid v =
     PARAM_SET_IMPL UR_PARAM_TYPE_U16 [ucast (v AND 0xFF), ucast (drop_bit 8 v)] g pid"

definition ur_param_set_u32 :: "param_state \<Rightarrow> 16 word \<Rightarrow> 32 word \<Rightarrow> ur_err_t \<times> param_state" where
  "ur_param_set_u32 g pid v =
     PARAM_SET_IMPL UR_PARAM_TYPE_U32
       [ucast (v AND 0xFF), ucast (drop_bit 8 v AND 0xFF), ucast (drop_bit 16 v AND 0xFF),
        ucast (drop_bit 24 v)] g pid"

definition ur_param_set_i8 :: "param_state \<Rightarrow> 16 word \<Rightarrow> 8 word \<Rightarrow> ur_err_t \<times> param_state" where
  "ur_param_set_i8 g pid v = PARAM_SET_IMPL UR_PARAM_TYPE_I8 [v] g pid"

definition ur_param_set_i16 :: "param_state \<Rightarrow> 16 word \<Rightarrow> 16 word \<Rightarrow> ur_err_t \<times> param_state" where
  "ur_param_set_i16 g pid v =
     PARAM_SET_IMPL UR_PARAM_TYPE_I16 [ucast (v AND 0xFF), ucast (drop_bit 8 v)] g pid"

definition ur_param_set_i32 :: "param_state \<Rightarrow> 16 word \<Rightarrow> 32 word \<Rightarrow> ur_err_t \<times> param_state" where
  "ur_param_set_i32 g pid v =
     PARAM_SET_IMPL UR_PARAM_TYPE_I32
       [ucast (v AND 0xFF), ucast (drop_bit 8 v AND 0xFF), ucast (drop_bit 16 v AND 0xFF),
        ucast (drop_bit 24 v)] g pid"

definition ur_param_set_bool :: "param_state \<Rightarrow> 16 word \<Rightarrow> bool \<Rightarrow> ur_err_t \<times> param_state" where
  "ur_param_set_bool g pid v = PARAM_SET_IMPL UR_PARAM_TYPE_BOOL [if v then 1 else 0] g pid"

text \<open>
  C strings: \<open>cstr\<close> reads a buffer up to its terminator. \<^verbatim>\<open>strncmp(a, b, n) == 0\<close>
  holds when the two strings agree on their first \<open>n\<close> characters; \<^verbatim>\<open>strncpy(dst, src, n)\<close>
  writes \<open>n\<close> bytes, the string followed by padding zeros.
\<close>

definition cstr :: "8 word list \<Rightarrow> 8 word list" where
  "cstr buf = takeWhile (\<lambda>c. c \<noteq> 0) buf"

definition strncmp_eq :: "8 word list \<Rightarrow> 8 word list \<Rightarrow> nat \<Rightarrow> bool" where
  "strncmp_eq a b n = (take n (cstr a) = take n (cstr b))"

definition strncpy_bytes :: "8 word list \<Rightarrow> nat \<Rightarrow> 8 word list" where
  "strncpy_bytes src n = take n (cstr src @ replicate n 0)"

text \<open>
  \<^verbatim>\<open>ur_param_set_str\<close>. The argument is \<open>None\<close> for a NULL pointer. \<^verbatim>\<open>def->size - 1\<close> is
  computed in \<^verbatim>\<open>int\<close> and converted to \<^verbatim>\<open>size_t\<close>: for a size of 0 it is the largest
  \<^verbatim>\<open>size_t\<close>, so the comparison is of the whole strings. The copy then writes
  \<^verbatim>\<open>size\<close> bytes into the 64 bytes of the union; a size of 0 or above 64 writes outside
  them, and the model answers \<open>None\<close> there.
\<close>

definition ur_param_set_str ::
  "param_state \<Rightarrow> 16 word \<Rightarrow> 8 word list option \<Rightarrow> (ur_err_t \<times> param_state) option" where
  "ur_param_set_str g pid value =
     (case value of
        None \<Rightarrow> Some (UR_ERR_INVALID_ARG, g)
      | Some s \<Rightarrow>
          (case find_entry g pid of
             None \<Rightarrow> Some (UR_ERR_NOT_FOUND, g)
           | Some i \<Rightarrow>
               let entry = p_entries g ! i; d = pe_def entry; sz = unat (pd_size d) in
               if pd_type d \<noteq> UR_PARAM_TYPE_STR then Some (UR_ERR_INVALID_ARG, g)
               else if pd_flags d AND UR_PARAM_FLAG_READONLY \<noteq> 0
               then Some (UR_ERR_INVALID_STATE, g)
               else if (if sz = 0 then cstr (pe_value entry) = cstr s
                        else strncmp_eq (pe_value entry) s (sz - 1))
               then Some (UR_OK, g)
               else if sz = 0 \<or> UR_CFG_PARAM_MAX_STRING_LEN < sz then None
               else Some (UR_OK, param_commit_change g pid i
                            (strncpy_bytes s (sz - 1) @ [0] @ drop sz (pe_value entry)))))"

text \<open>
  \<^verbatim>\<open>ur_param_set_blob\<close>. \<open>data\<close> is \<open>None\<close> for a NULL pointer, otherwise the \<open>len\<close> bytes
  it points to. There is no comparison with the current value on this path. A copy of
  more than 64 bytes writes outside the union, and the model answers \<open>None\<close> there.
\<close>

definition ur_param_set_blob ::
  "param_state \<Rightarrow> 16 word \<Rightarrow> 8 word list option \<Rightarrow> nat \<Rightarrow> (ur_err_t \<times> param_state) option" where
  "ur_param_set_blob g pid data len =
     (case data of
        None \<Rightarrow> Some (UR_ERR_INVALID_ARG, g)
      | Some bytes \<Rightarrow>
          if len = 0 then Some (UR_ERR_INVALID_ARG, g)
          else
            (case find_entry g pid of
               None \<Rightarrow> Some (UR_ERR_NOT_FOUND, g)
             | Some i \<Rightarrow>
                 let entry = p_entries g ! i; d = pe_def entry in
                 if pd_type d \<noteq> UR_PARAM_TYPE_BLOB then Some (UR_ERR_INVALID_ARG, g)
                 else if pd_flags d AND UR_PARAM_FLAG_READONLY \<noteq> 0
                 then Some (UR_ERR_INVALID_STATE, g)
                 else
                   let copy_len = min len (unat (pd_size d)) in
                   if UR_CFG_PARAM_MAX_STRING_LEN < copy_len then None
                   else Some (UR_OK, param_commit_change g pid i
                                (take copy_len bytes @ drop copy_len (pe_value entry)))))"

text \<open>\<^verbatim>\<open>ur_param_get_blob\<close>, with \<open>len\<close> the capacity of the caller's buffer.\<close>

definition ur_param_get_blob :: "param_state \<Rightarrow> 16 word \<Rightarrow> nat \<Rightarrow> ur_err_t \<times> 8 word list" where
  "ur_param_get_blob g pid len =
     (if len = 0 then (UR_ERR_INVALID_ARG, [])
      else
        (case find_entry g pid of
           None \<Rightarrow> (UR_ERR_NOT_FOUND, [])
         | Some i \<Rightarrow>
             let entry = p_entries g ! i; d = pe_def entry in
             if pd_type d \<noteq> UR_PARAM_TYPE_BLOB then (UR_ERR_INVALID_ARG, [])
             else (UR_OK, take (min len (unat (pd_size d))) (pe_value entry))))"

section \<open>Concrete machines used as test inputs\<close>

text \<open>
  Actions of the test machines: every action returns 0 and appends its own name to the
  scratchpad, so that a run leaves a visible trace in the entity as well.
\<close>

definition ex_aenv :: action_env where
  "ex_aenv f ent sig = (0, ent\<lparr>scratch := scratch ent @ [word_of_nat f]\<rparr>)"

definition ex_menv :: mw_env where
  "ex_menv f ent sig ctx =
     (if f = 1 then (UR_MW_TRANSFORM, ent, sig\<lparr>sig_src_id := 9\<rparr>)
      else (UR_MW_FILTERED, ent, sig))"

definition ex_entity :: "ur_state_def_t list \<Rightarrow> 16 word \<Rightarrow> ur_signal_t list \<Rightarrow> ur_entity_t" where
  "ex_entity sts cur box =
     \<lparr>ent_id = 1, current_state = cur, ent_flags = UR_FLAG_ACTIVE, states = sts,
      initial_state = 1, mixins = [], middleware = [], flow_line = 7, flow_wait_sig = 5,
      flow_wait_until = 1000, scratch = [], inbox = box\<rparr>"

definition ex_signal :: "16 word \<Rightarrow> ur_signal_t" where
  "ex_signal sid =
     \<lparr>sig_id = sid, sig_src_id = 0, sig_payload = [0, 0, 0, 0], sig_ptr = 0, sig_timestamp = 0\<rparr>"

text \<open>
  Scenario 1 of the specification: state IDLE (1) has the rule
  \<open>{BUTTON_PRESS (0x0100), BLINKING (2), act_start (10)}\<close>; IDLE has an on-exit action
  (11), BLINKING an on-entry action (12).
\<close>

definition ex_button_states :: "ur_state_def_t list" where
  "ex_button_states =
     [\<lparr>st_id = 1, st_parent_id = 0, st_on_entry = None, st_on_exit = Some 11,
       st_rules = Some [\<lparr>rule_signal_id = 0x0100, rule_next_state = 2, rule_action = Some 10\<rparr>]\<rparr>,
      \<lparr>st_id = 2, st_parent_id = 0, st_on_entry = Some 12, st_on_exit = None,
       st_rules = Some []\<rparr>]"

text \<open>
  Scenario 2 of the specification: parent state STANDBY (1) has the rule
  \<open>{POWER_OFF (0x0101), STANDBY, act_power_off (20)}\<close> and an on-entry action (21);
  the child NORMAL (2, parent 1) has no rule for POWER\_OFF, an on-exit action (22) and
  an on-entry action (23).
\<close>

definition ex_hsm_states :: "ur_state_def_t list" where
  "ex_hsm_states =
     [\<lparr>st_id = 1, st_parent_id = 0, st_on_entry = Some 21, st_on_exit = None,
       st_rules = Some [\<lparr>rule_signal_id = 0x0101, rule_next_state = 1, rule_action = Some 20\<rparr>]\<rparr>,
      \<lparr>st_id = 2, st_parent_id = 1, st_on_entry = Some 23, st_on_exit = Some 22,
       st_rules = Some []\<rparr>]"

text \<open>A rule whose target state 9 is not in the table.\<close>

definition ex_dangling_states :: "ur_state_def_t list" where
  "ex_dangling_states =
     [\<lparr>st_id = 1, st_parent_id = 0, st_on_entry = None, st_on_exit = Some 11,
       st_rules = Some [\<lparr>rule_signal_id = 0x0100, rule_next_state = 9, rule_action = None\<rparr>]\<rparr>]"

text \<open>An entity with two enabled middleware entries, functions 1 and 2 of \<open>ex_menv\<close>.\<close>

definition ex_mw_entity :: ur_entity_t where
  "ex_mw_entity =
     (ex_entity ex_button_states 1 [ex_signal 0x0100])
       \<lparr>middleware :=
          [\<lparr>mw_fn = Some 1, mw_ctx = 0, mw_priority = 0, mw_enabled = 1\<rparr>,
           \<lparr>mw_fn = Some 2, mw_ctx = 0, mw_priority = 1, mw_enabled = 1\<rparr>]\<rparr>"

text \<open>
  A middleware environment in which nothing stops the chain (function 1 rewrites the
  source id, every other function returns CONTINUE), and an entity whose chain has an
  enabled, a disabled, an empty and again an enabled entry.
\<close>

definition ex_pass_menv :: mw_env where
  "ex_pass_menv f ent sig ctx =
     (if f = 1 then (UR_MW_TRANSFORM, ent, sig\<lparr>sig_src_id := 9\<rparr>)
      else (UR_MW_CONTINUE, ent, sig))"

definition ex_mw_pass_entity :: ur_entity_t where
  "ex_mw_pass_entity =
     (ex_entity ex_button_states 1 [ex_signal 0x0100])
       \<lparr>middleware :=
          [\<lparr>mw_fn = Some 1, mw_ctx = 0, mw_priority = 0, mw_enabled = 1\<rparr>,
           \<lparr>mw_fn = Some 2, mw_ctx = 0, mw_priority = 1, mw_enabled = 0\<rparr>,
           \<lparr>mw_fn = None, mw_ctx = 0, mw_priority = 2, mw_enabled = 1\<rparr>,
           \<lparr>mw_fn = Some 3, mw_ctx = 0, mw_priority = 3, mw_enabled = 1\<rparr>]\<rparr>"

text \<open>
  Scenario 3 of the specification: two subscribers A (entity 1) and B (entity 2) of the
  topic BATTERY\_LEVEL (0x0130), and the signal
  \<open>{id = BATTERY_LEVEL, src = 5, payload.u8[0] = 42}\<close> with timestamp 0, as
  \<^verbatim>\<open>UR_SIGNAL_U32\<close> builds it. In \<open>ex_registry_full\<close> the inbox of B is full.
\<close>

definition ex_battery_sig :: ur_signal_t where
  "ex_battery_sig =
     \<lparr>sig_id = 0x0130, sig_src_id = 5, sig_payload = [42, 0, 0, 0], sig_ptr = 0, sig_timestamp = 0\<rparr>"

definition ex_bus :: bus_state where
  "ex_bus =
     \<lparr>topics = [\<lparr>topic_id = 0x0130, subscribers = [1, 2]\<rparr>],
      bus_stats = \<lparr>publish_count = 0, delivery_count = 0, drop_count = 0, no_subscriber_count = 0\<rparr>,
      bus_initialized = True\<rparr>"

definition ex_registry :: registry where
  "ex_registry =
     (\<lambda>i. None)(0 := Some (ex_entity ex_button_states 1 []),
                1 := Some ((ex_entity ex_button_states 1 [])\<lparr>ent_id := 2\<rparr>))"

definition ex_registry_full :: registry where
  "ex_registry_full =
     (\<lambda>i. None)(0 := Some (ex_entity ex_button_states 1 []),
                1 := Some ((ex_entity ex_button_states 1 (replicate 8 (ex_signal 0x0100)))
                             \<lparr>ent_id := 2\<rparr>))"

definition ex_clock :: "nat \<Rightarrow> 32 word" where
  "ex_clock i = 1234"

text \<open>
  A parameter store as \<^verbatim>\<open>ur_param_init\<close> leaves it: a volume (U8), a device name (STR of
  size 8) and a calibration blob (BLOB of size 4), all persistent and notifying, values
  all zero, and a backend whose \<^verbatim>\<open>save\<close> succeeds.
\<close>

definition ex_param_entry :: "16 word \<Rightarrow> ur_param_type_t \<Rightarrow> string \<Rightarrow> 16 word \<Rightarrow> ur_param_entry_t" where
  "ex_param_entry pid ty name sz =
     \<lparr>pe_def = \<lparr>pd_id = pid, pd_type = ty,
                pd_flags = UR_PARAM_FLAG_PERSIST OR UR_PARAM_FLAG_NOTIFY,
                pd_name = name, pd_size = sz, pd_default_val = replicate 64 0\<rparr>,
      pe_value = replicate 64 0,
      pe_flags = UR_PARAM_FLAG_PERSIST OR UR_PARAM_FLAG_NOTIFY\<rparr>"

definition ex_param_save :: param_save_fn where
  "ex_param_save key ty v sz = UR_OK"

definition ex_param :: param_state where
  "ex_param =
     \<lparr>p_entries = [ex_param_entry 1 UR_PARAM_TYPE_U8 ''volume'' 0,
                   ex_param_entry 2 UR_PARAM_TYPE_STR ''name'' 8,
                   ex_param_entry 3 UR_PARAM_TYPE_BLOB ''calib'' 4],
      p_storage = Some \<lparr>stor_save = Some ex_param_save\<rparr>,
      p_batch_mode = False, p_initialized = True, p_saved = [], p_published = []\<rparr>"

text \<open>\<open>ex_param\<close> once the blob parameter 3 has been set to the bytes 1, 2, 3, 4.\<close>

definition ex_param_blob_set :: param_state where
  "ex_param_blob_set =
     \<lparr>p_entries = [ex_param_entry 1 UR_PARAM_TYPE_U8 ''volume'' 0,
                   ex_param_entry 2 UR_PARAM_TYPE_STR ''name'' 8,
                   (ex_param_entry 3 UR_PARAM_TYPE_BLOB ''calib'' 4)
                     \<lparr>pe_value := [1, 2, 3, 4] @ replicate 60 0\<rparr>],
      p_storage = Some \<lparr>stor_save = Some ex_param_save\<rparr>,
      p_batch_mode = False, p_initialized = True,
      p_saved = [(''calib'', [1, 2, 3, 4] @ replicate 60 0)],
      p_published = [param_changed_signal 3 2]\<rparr>"

section \<open>Power manager: results\<close>

lemmas power_mode_defs =
  UR_POWER_ACTIVE_def UR_POWER_IDLE_def UR_POWER_LIGHT_SLEEP_def
  UR_POWER_DEEP_SLEEP_def UR_POWER_MODE_COUNT_def

lemma allowed_mode_unfold:
  "ur_power_get_allowed_mode g =
     (if \<not> ur_power_is_locked g 3 then 3
      else if \<not> ur_power_is_locked g 2 then 2
      else if \<not> ur_power_is_locked g 1 then 1 else 0)"
  by (simp add: ur_power_get_allowed_mode_def power_mode_defs eval_nat_numeral)

lemma power_empty_allows_deep_sleep:
  "locks g = [] \<Longrightarrow> ur_power_get_allowed_mode g = UR_POWER_DEEP_SLEEP"
  by (simp add: allowed_mode_unfold ur_power_is_locked_def power_mode_defs)

text \<open>
  C1. The claim: a lock on mode M keeps the system out of M and of every deeper mode, so
  after a single \<^verbatim>\<open>ur_power_lock(e, UR_POWER_LIGHT_SLEEP)\<close> the allowed mode is IDLE.
  The code: \<^verbatim>\<open>ur_power_get_allowed_mode\<close> returns the deepest mode that is not itself
  in the lock table, so with LIGHT\_SLEEP as the only lock it still answers DEEP\_SLEEP.
  The first conjunct is the part of the claim that holds (no locks: DEEP\_SLEEP), the
  second is the code at the claim's own input.
\<close>

theorem power_lock_light_sleep_still_deep_sleep:
  "ur_power_get_allowed_mode (ur_power_init g_power_zero) = UR_POWER_DEEP_SLEEP \<and>
   ur_power_lock 1 UR_POWER_LIGHT_SLEEP (ur_power_init g_power_zero) =
     (UR_OK, \<lparr>locks = [\<lparr>lock_entity_id = 1, lock_mode = UR_POWER_LIGHT_SLEEP, lock_count = 1\<rparr>],
              power_initialized = True\<rparr>) \<and>
   ur_power_get_allowed_mode
     (snd (ur_power_lock 1 UR_POWER_LIGHT_SLEEP (ur_power_init g_power_zero))) = UR_POWER_DEEP_SLEEP \<and>
   UR_POWER_DEEP_SLEEP \<noteq> UR_POWER_IDLE"
  by (simp add: allowed_mode_unfold ur_power_is_locked_def ur_power_lock_def ur_power_init_def
      g_power_zero_def power_mode_defs MAX_LOCKS_def UR_CFG_MAX_ENTITIES_def
      UR_CFG_POWER_MAX_MODES_def)

section \<open>Core engine: results\<close>

lemma chain_from_invariant:
  assumes res: "run_middleware_chain_from menv i ent sig log = (r, ent1, sig1, log1)"
    and init: "P ent sig log"
    and step: "\<And>f e s c r' e' s' l. P e s l \<Longrightarrow> menv f e s c = (r', e', s') \<Longrightarrow>
                 P e' s' (l @ [MiddlewareCall f s])"
  shows "P ent1 sig1 log1"
  using res init step
proof (induction menv i ent sig log rule: run_middleware_chain_from.induct)
  case (1 menv i ent sig log)
  note unfold = run_middleware_chain_from.simps [of menv i ent sig log]
  show ?case
  proof (cases "i < length (middleware ent) \<and> i < UR_CFG_MAX_MIDDLEWARE")
    case False
    with "1.prems" show ?thesis by (simp add: unfold)
  next
    case inb: True
    show ?thesis
    proof (cases "mw_fn (middleware ent ! i)")
      case None
      with inb "1.prems" have "run_middleware_chain_from menv (Suc i) ent sig log = (r, ent1, sig1, log1)"
        by (simp add: unfold)
      then show ?thesis
        by (rule "1.IH"(1) [OF inb refl None _ "1.prems"(2)]) (erule (1) "1.prems"(3))
    next
      case (Some f)
      show ?thesis
      proof (cases "mw_enabled (middleware ent ! i) \<noteq> 0")
        case False
        with inb Some "1.prems" have rest: "run_middleware_chain_from menv (Suc i) ent sig log = (r, ent1, sig1, log1)"
          by (simp add: unfold)
        show ?thesis
          by (rule "1.IH"(3) [OF inb refl Some False rest "1.prems"(2)]) (erule (1) "1.prems"(3))
      next
        case en: True
        obtain r' e' s' where m: "menv f ent sig (mw_ctx (middleware ent ! i)) = (r', e', s')"
          by (cases "menv f ent sig (mw_ctx (middleware ent ! i))") auto
        have P': "P e' s' (log @ [MiddlewareCall f sig])"
          using "1.prems"(3) [OF "1.prems"(2) m] .
        show ?thesis
        proof (cases "r' = UR_MW_FILTERED \<or> r' = UR_MW_HANDLED")
          case True
          with inb Some en m "1.prems"(1) have "ent1 = e' \<and> sig1 = s' \<and> log1 = log @ [MiddlewareCall f sig]"
            by (auto simp add: unfold)
          with P' show ?thesis by simp
        next
          case False
          with inb Some en m "1.prems"(1)
          have rest: "run_middleware_chain_from menv (Suc i) e' s' (log @ [MiddlewareCall f sig]) = (r, ent1, sig1, log1)"
            by (auto simp add: unfold)
          show ?thesis
            by (rule "1.IH"(2) [OF inb refl Some en m [symmetric] refl False rest P'])
               (erule (1) "1.prems"(3))
        qed
      qed
    qed
  qed
qed

lemma chain_calls:
  assumes "run_middleware_chain menv ent sig log = (r, ent1, sig1, log1)"
  shows "\<exists>calls. log1 = log @ calls \<and> (\<forall>c\<in>set calls. \<exists>f s. c = MiddlewareCall f s)"
proof -
  have "(\<lambda>e s l. \<exists>calls. l = log @ calls \<and> (\<forall>c\<in>set calls. \<exists>f s. c = MiddlewareCall f s)) ent1 sig1 log1"
  proof (rule chain_from_invariant [OF assms [unfolded run_middleware_chain_def]])
    show "\<exists>calls. log = log @ calls \<and> (\<forall>c\<in>set calls. \<exists>f s. c = MiddlewareCall f s)"
      by (rule exI [of _ "[]"]) simp
  next
    fix f e s c r' e' s' l
    assume "\<exists>calls. l = log @ calls \<and> (\<forall>c\<in>set calls. \<exists>f s. c = MiddlewareCall f s)"
    then obtain calls where "l = log @ calls" "\<forall>c\<in>set calls. \<exists>f s. c = MiddlewareCall f s"
      by blast
    then have "l @ [MiddlewareCall f s] = log @ (calls @ [MiddlewareCall f s]) \<and>
        (\<forall>c\<in>set (calls @ [MiddlewareCall f s]). \<exists>f s. c = MiddlewareCall f s)"
      by auto
    then show "\<exists>calls. l @ [MiddlewareCall f s] = log @ calls \<and>
        (\<forall>c\<in>set calls. \<exists>f s. c = MiddlewareCall f s)"
      by blast
  qed
  then show ?thesis .
qed

lemma chain_fsm_fields:
  assumes "run_middleware_chain menv ent sig log = (r, ent1, sig1, log1)"
    and "\<And>f e s c. fsm_fields (fst (snd (menv f e s c))) = fsm_fields e"
  shows "fsm_fields ent1 = fsm_fields ent"
proof -
  have "(\<lambda>e s l. fsm_fields e = fsm_fields ent) ent1 sig1 log1"
  proof (rule chain_from_invariant [OF assms(1) [unfolded run_middleware_chain_def]])
    show "fsm_fields ent = fsm_fields ent" by simp
  next
    fix f e s c r' e' s' l
    assume "fsm_fields e = fsm_fields ent" and "menv f e s c = (r', e', s')"
    with assms(2) [of f e s c] show "fsm_fields e' = fsm_fields ent" by simp
  qed
  then show ?thesis .
qed

lemma chain_step:
  assumes "i < length (middleware e)" "i < UR_CFG_MAX_MIDDLEWARE"
    "mw_fn (middleware e ! i) = Some f" "mw_enabled (middleware e ! i) \<noteq> 0"
    "menv f e s (mw_ctx (middleware e ! i)) = (r', e', s')"
  shows "run_middleware_chain_from menv i e s l =
        (if r' = UR_MW_HANDLED \<or> r' = UR_MW_FILTERED then (r', e', s', l @ [MiddlewareCall f s])
         else run_middleware_chain_from menv (Suc i) e' s' (l @ [MiddlewareCall f s]))"
  using assms by (subst run_middleware_chain_from.simps) auto

lemma chain_empty:
  "middleware ent = [] \<Longrightarrow> run_middleware_chain menv ent sig log = (UR_MW_CONTINUE, ent, sig, log)"
  by (simp add: run_middleware_chain_def run_middleware_chain_from.simps [of menv 0])

lemma chain_end:
  "\<not> (i < length (middleware e) \<and> i < UR_CFG_MAX_MIDDLEWARE) \<Longrightarrow>
     run_middleware_chain_from menv i e s l = (UR_MW_CONTINUE, e, s, l)"
  by (auto simp add: run_middleware_chain_from.simps [of menv i e s l])

lemma chain_skip:
  assumes "i < length (middleware e)" "i < UR_CFG_MAX_MIDDLEWARE"
    "mw_fn (middleware e ! i) = None \<or> mw_enabled (middleware e ! i) = 0"
  shows "run_middleware_chain_from menv i e s l = run_middleware_chain_from menv (Suc i) e s l"
  using assms
  by (auto simp add: run_middleware_chain_from.simps [of menv i e s l] Let_def split: option.splits)

lemma chain_from_result:
  assumes "run_middleware_chain_from menv i ent sig log = (r, ent1, sig1, log1)"
  shows "r = UR_MW_CONTINUE \<or>
         (r = UR_MW_HANDLED \<or> r = UR_MW_FILTERED) \<and>
         (\<exists>f e s c l. menv f e s c = (r, ent1, sig1) \<and> log1 = l @ [MiddlewareCall f s])"
  using assms
proof (induction menv i ent sig log rule: run_middleware_chain_from.induct)
  case (1 menv i ent sig log)
  note unfold = run_middleware_chain_from.simps [of menv i ent sig log]
  show ?case
  proof (cases "i < length (middleware ent) \<and> i < UR_CFG_MAX_MIDDLEWARE")
    case False
    with "1.prems" show ?thesis by (simp add: unfold)
  next
    case inb: True
    show ?thesis
    proof (cases "mw_fn (middleware ent ! i)")
      case None
      with inb "1.prems" have "run_middleware_chain_from menv (Suc i) ent sig log = (r, ent1, sig1, log1)"
        by (simp add: unfold)
      then show ?thesis
        by (rule "1.IH"(1) [OF inb refl None])
    next
      case (Some f)
      show ?thesis
      proof (cases "mw_enabled (middleware ent ! i) \<noteq> 0")
        case False
        with inb Some "1.prems" have rest: "run_middleware_chain_from menv (Suc i) ent sig log = (r, ent1, sig1, log1)"
          by (simp add: unfold)
        show ?thesis
          by (rule "1.IH"(3) [OF inb refl Some False rest])
      next
        case en: True
        obtain r' e' s' where m: "menv f ent sig (mw_ctx (middleware ent ! i)) = (r', e', s')"
          by (cases "menv f ent sig (mw_ctx (middleware ent ! i))") auto
        show ?thesis
        proof (cases "r' = UR_MW_FILTERED \<or> r' = UR_MW_HANDLED")
          case True
          with inb Some en m "1.prems"(1)
          have eq: "r = r'" "ent1 = e'" "sig1 = s'" "log1 = log @ [MiddlewareCall f sig]"
            by (auto simp add: unfold)
          from m eq have "\<exists>f e s c l. menv f e s c = (r, ent1, sig1) \<and> log1 = l @ [MiddlewareCall f s]"
            by blast
          with True eq(1) show ?thesis by blast
        next
          case False
          with inb Some en m "1.prems"(1)
          have rest: "run_middleware_chain_from menv (Suc i) e' s' (log @ [MiddlewareCall f sig]) = (r, ent1, sig1, log1)"
            by (auto simp add: unfold)
          show ?thesis
            by (rule "1.IH"(2) [OF inb refl Some en m [symmetric] refl False rest])
        qed
      qed
    qed
  qed
qed

lemma dispatch_to_rules:
  assumes "ent_flags ent AND UR_FLAG_ACTIVE \<noteq> 0"
    and "ent_flags ent AND UR_FLAG_SUSPENDED = 0"
    and "inbox ent = sig0 # rest"
    and "run_middleware_chain menv (ent\<lparr>inbox := rest\<rparr>) sig0 log = (UR_MW_CONTINUE, ent1, sig, log1)"
  shows "ur_dispatch aenv menv now (ent, log) = dispatch_rules aenv now ent1 sig log1"
  using assms by (simp add: ur_dispatch_def)

lemma set_state_found:
  assumes "find_state ent state_id = Some new_state"
    and "current_state ent \<noteq> 0"
    and "find_state ent (current_state ent) = Some old_state"
  shows "ur_set_state aenv now (ent, log) state_id =
     (let exit_sig = (ur_signal_create SIG_NONE (ent_id ent) now)\<lparr>sig_id := SIG_SYS_EXIT\<rparr>;
          entry_sig = (ur_signal_create SIG_NONE (ent_id ent) now)\<lparr>sig_id := SIG_SYS_ENTRY\<rparr>;
          after_exit = (case st_on_exit old_state of None \<Rightarrow> ent | Some f \<Rightarrow> snd (aenv f ent exit_sig));
          swapped = after_exit\<lparr>flow_line := 0, flow_wait_sig := 0, flow_wait_until := 0,
                      ent_flags := ent_flags after_exit AND NOT UR_FLAG_FLOW_RUNNING,
                      current_state := state_id\<rparr>
      in (UR_OK,
          (case st_on_entry new_state of None \<Rightarrow> swapped | Some g \<Rightarrow> snd (aenv g swapped entry_sig)),
          log @ (case st_on_exit old_state of None \<Rightarrow> [] | Some f \<Rightarrow> [OnExitCall f exit_sig])
              @ (case st_on_entry new_state of None \<Rightarrow> [] | Some g \<Rightarrow> [OnEntryCall g entry_sig])))"
  using assms
  by (simp add: ur_set_state_def flow_reset_def SIG_NONE_def Let_def split: option.splits)

lemma set_state_missing:
  "find_state ent state_id = None \<Longrightarrow>
     ur_set_state aenv now (ent, log) state_id = (UR_ERR_NOT_FOUND, ent, log)"
  by (simp add: ur_set_state_def)

lemma replicate_payload: "replicate UR_CFG_SIGNAL_PAYLOAD_SIZE x = [x, x, x, x]"
  by (simp add: UR_CFG_SIGNAL_PAYLOAD_SIZE_def eval_nat_numeral)

lemmas ex_defs = replicate_payload
  ex_entity_def ex_signal_def ex_aenv_def ex_hsm_states_def ex_button_states_def
  ex_dangling_states_def ur_signal_create_def SIG_NONE_def SIG_SYS_EXIT_def SIG_SYS_ENTRY_def
  UR_FLAG_ACTIVE_def UR_FLAG_SUSPENDED_def UR_FLAG_FLOW_RUNNING_def

text \<open>
  C2 (as stated). An entity in child state NORMAL whose parent STANDBY has the rule
  \<open>{POWER_OFF, STANDBY, act_power_off}\<close>, no local and no mixin rule: the claim says
  that dispatching POWER\_OFF runs the action and performs no transition. In the code the
  lookup finds the parent's rule, the action runs, and since the rule's next state
  STANDBY (1) is not 0 and is not the current state NORMAL (2), \<^verbatim>\<open>ur_dispatch\<close> calls
  \<^verbatim>\<open>ur_set_state\<close>: NORMAL's on-exit (22) and STANDBY's on-entry (21) run and the
  current state becomes STANDBY.
\<close>

theorem hsm_bubble_up_no_transition_counterexample:
  "cascading_lookup (ex_entity ex_hsm_states 2 []) 0x0101 =
     Some (Some \<lparr>rule_signal_id = 0x0101, rule_next_state = 1, rule_action = Some 20\<rparr>) \<and>
   ur_dispatch ex_aenv ex_menv 0 (ex_entity ex_hsm_states 2 [ex_signal 0x0101], []) =
     Some (UR_OK,
           (ex_entity ex_hsm_states 1 [])
             \<lparr>flow_line := 0, flow_wait_sig := 0, flow_wait_until := 0, scratch := [20, 22, 21]\<rparr>,
           [RuleActionCall 20 (ex_signal 0x0101),
            OnExitCall 22 ((ur_signal_create 0 1 0)\<lparr>sig_id := SIG_SYS_EXIT\<rparr>),
            OnEntryCall 21 ((ur_signal_create 0 1 0)\<lparr>sig_id := SIG_SYS_ENTRY\<rparr>)])"
  by code_simp

text \<open>
  C2 (amended). With an empty middleware chain, a current state \<open>child\<close> without a rule
  for the signal, no mixin rule, and a parent state whose rule for the signal names the
  parent itself as next state and has an action that returns 0 and leaves the state table
  and the current state alone: the dispatch invokes that action once and then makes the
  transition from the child to the parent (the child's on-exit with a
  \<open>SIG_SYS_EXIT\<close> signal, the flow reset, the swap of the current state to the parent,
  the parent's on-entry with a \<open>SIG_SYS_ENTRY\<close> signal), because the parent's id
  differs from the current state.
\<close>

theorem hsm_parent_rule_transitions:
  assumes "ent_flags ent AND UR_FLAG_ACTIVE \<noteq> 0"
    and "ent_flags ent AND UR_FLAG_SUSPENDED = 0"
    and "inbox ent = sig # rest"
    and "middleware ent = []"
    and "current_state ent \<noteq> 0"
    and "find_state ent (current_state ent) = Some child"
    and "find_rule_in_state child (sig_id sig) = None"
    and "find_rule_in_mixins ent (sig_id sig) = None"
    and "st_parent_id child \<noteq> 0"
    and "find_state ent (st_parent_id child) = Some parent"
    and "find_rule_in_state parent (sig_id sig) = Some rule"
    and "rule_next_state rule = st_parent_id child"
    and "rule_action rule = Some act"
    and "aenv act (ent\<lparr>inbox := rest\<rparr>) sig = (0, ent2)"
    and "states ent2 = states ent"
    and "current_state ent2 = current_state ent"
  shows "st_parent_id child \<noteq> current_state ent \<and>
     ur_dispatch aenv menv now (ent, log) =
       Some (let exit_sig = (ur_signal_create SIG_NONE (ent_id ent2) now)\<lparr>sig_id := SIG_SYS_EXIT\<rparr>;
                 entry_sig = (ur_signal_create SIG_NONE (ent_id ent2) now)\<lparr>sig_id := SIG_SYS_ENTRY\<rparr>;
                 after_exit = (case st_on_exit child of None \<Rightarrow> ent2
                               | Some f \<Rightarrow> snd (aenv f ent2 exit_sig));
                 swapped = after_exit\<lparr>flow_line := 0, flow_wait_sig := 0, flow_wait_until := 0,
                             ent_flags := ent_flags after_exit AND NOT UR_FLAG_FLOW_RUNNING,
                             current_state := st_parent_id child\<rparr>
             in (UR_OK,
                 (case st_on_entry parent of None \<Rightarrow> swapped
                  | Some g \<Rightarrow> snd (aenv g swapped entry_sig)),
                 log @ [RuleActionCall act sig]
                     @ (case st_on_exit child of None \<Rightarrow> [] | Some f \<Rightarrow> [OnExitCall f exit_sig])
                     @ (case st_on_entry parent of None \<Rightarrow> [] | Some g \<Rightarrow> [OnEntryCall g entry_sig])))"
proof -
  let ?ent1 = "ent\<lparr>inbox := rest\<rparr>"
  have ne: "st_parent_id child \<noteq> current_state ent"
  proof
    assume "st_parent_id child = current_state ent"
    with assms(6,10) have "parent = child" by simp
    with assms(7,11) show False by simp
  qed
  have fs: "\<And>x. find_state ?ent1 x = find_state ent x" "\<And>x. find_state ent2 x = find_state ent x"
    using assms(15) by (simp_all add: find_state_def)
  have fm: "find_rule_in_mixins ?ent1 (sig_id sig) = None"
    using assms(8) by (simp add: find_rule_in_mixins_def)
  have look: "cascading_lookup ?ent1 (sig_id sig) = Some (Some rule)"
    using assms(6,7,9,10,11) fm
    by (simp add: cascading_lookup_def fs hsm_bubble_up.simps [of ?ent1 "Some child"])
  have d: "ur_dispatch aenv menv now (ent, log) = dispatch_rules aenv now ?ent1 sig log"
    using assms(1-4) by (simp add: ur_dispatch_def chain_empty)
  have s: "find_state ent2 (st_parent_id child) = Some parent" "current_state ent2 \<noteq> 0"
     "find_state ent2 (current_state ent2) = Some child"
    using assms(5,6,10,16) by (simp_all add: fs)
  have r: "dispatch_rules aenv now ?ent1 sig log =
      (case ur_set_state aenv now (ent2, log @ [RuleActionCall act sig]) (st_parent_id child) of
         (err, ent3, log3) \<Rightarrow> Some (UR_OK, ent3, log3))"
    using look assms(12,13,14,16) ne assms(9) by (auto simp add: dispatch_rules_def split: prod.splits)
  show ?thesis
    using ne d r by (simp add: set_state_found [OF s] Let_def)
qed

theorem hsm_parent_rule_transitions_witness:
  "ur_dispatch ex_aenv ex_menv 0 (ex_entity ex_hsm_states 2 [ex_signal 0x0101], []) =
     Some (UR_OK,
           \<lparr>ent_id = 1, current_state = 1, ent_flags = 1, states = ex_hsm_states,
            initial_state = 1, mixins = [], middleware = [], flow_line = 0, flow_wait_sig = 0,
            flow_wait_until = 0, scratch = [20, 22, 21], inbox = []\<rparr>,
           [RuleActionCall 20 (ex_signal 0x0101),
            OnExitCall 22 \<lparr>sig_id = 3, sig_src_id = 1, sig_payload = [0, 0, 0, 0], sig_ptr = 0,
                           sig_timestamp = 0\<rparr>,
            OnEntryCall 21 \<lparr>sig_id = 2, sig_src_id = 1, sig_payload = [0, 0, 0, 0], sig_ptr = 0,
                            sig_timestamp = 0\<rparr>])"
proof -
  let ?ent = "ex_entity ex_hsm_states 2 [ex_signal 0x0101]"
  let ?child = "ex_hsm_states ! 1"
  let ?parent = "ex_hsm_states ! 0"
  let ?rule = "\<lparr>rule_signal_id = 0x0101, rule_next_state = 1, rule_action = Some 20\<rparr>"
  let ?ent2 = "(ex_entity ex_hsm_states 2 [])\<lparr>scratch := [20]\<rparr>"
  have h: "ent_flags ?ent AND UR_FLAG_ACTIVE \<noteq> 0"
    "ent_flags ?ent AND UR_FLAG_SUSPENDED = 0"
    "inbox ?ent = ex_signal 0x0101 # []"
    "middleware ?ent = []"
    "current_state ?ent \<noteq> 0"
    "find_state ?ent (current_state ?ent) = Some ?child"
    "find_rule_in_state ?child (sig_id (ex_signal 0x0101)) = None"
    "find_rule_in_mixins ?ent (sig_id (ex_signal 0x0101)) = None"
    "st_parent_id ?child \<noteq> 0"
    "find_state ?ent (st_parent_id ?child) = Some ?parent"
    "find_rule_in_state ?parent (sig_id (ex_signal 0x0101)) = Some ?rule"
    "rule_next_state ?rule = st_parent_id ?child"
    "rule_action ?rule = Some 20"
    "ex_aenv 20 (?ent\<lparr>inbox := []\<rparr>) (ex_signal 0x0101) = (0, ?ent2)"
    "states ?ent2 = states ?ent"
    "current_state ?ent2 = current_state ?ent"
    by (simp_all add: ex_defs find_state_def find_rule_in_state_def find_rule_in_mixins_def)
  have c: "ur_dispatch ex_aenv ex_menv 0 (?ent, []) =
       Some (let exit_sig = (ur_signal_create SIG_NONE (ent_id ?ent2) 0)\<lparr>sig_id := SIG_SYS_EXIT\<rparr>;
                 entry_sig = (ur_signal_create SIG_NONE (ent_id ?ent2) 0)\<lparr>sig_id := SIG_SYS_ENTRY\<rparr>;
                 after_exit = (case st_on_exit ?child of None \<Rightarrow> ?ent2
                               | Some f \<Rightarrow> snd (ex_aenv f ?ent2 exit_sig));
                 swapped = after_exit\<lparr>flow_line := 0, flow_wait_sig := 0, flow_wait_until := 0,
                             ent_flags := ent_flags after_exit AND NOT UR_FLAG_FLOW_RUNNING,
                             current_state := st_parent_id ?child\<rparr>
             in (UR_OK,
                 (case st_on_entry ?parent of None \<Rightarrow> swapped
                  | Some g \<Rightarrow> snd (ex_aenv g swapped entry_sig)),
                 [] @ [RuleActionCall 20 (ex_signal 0x0101)]
                     @ (case st_on_exit ?child of None \<Rightarrow> [] | Some f \<Rightarrow> [OnExitCall f exit_sig])
                     @ (case st_on_entry ?parent of None \<Rightarrow> [] | Some g \<Rightarrow> [OnEntryCall g entry_sig])))"
    using hsm_parent_rule_transitions
            [where aenv = ex_aenv and menv = ex_menv and now = 0 and log = "[]" and ent = ?ent
               and sig = "ex_signal 0x0101" and rest = "[]" and child = ?child
               and parent = ?parent and rule = ?rule and act = 20 and ?ent2.0 = ?ent2, OF h]
    by (rule conjunct2)
  show ?thesis
    unfolding c by (simp add: ex_defs Let_def)
qed

text \<open>
  C3 (as stated). The claim: whenever the resulting next state is nonzero and differs
  from the current state, the entity runs the old state's on-exit, resets the flow state,
  swaps the current state id and runs the new state's on-entry. In the code the
  transition goes through \<^verbatim>\<open>ur_set_state\<close>, which first looks the target up and returns
  \<^verbatim>\<open>UR_ERR_NOT_FOUND\<close> when it is not in the state table. Here state 1 has an on-exit
  action (11) and a rule to state 9, which does not exist: the rule matches, 9 is
  nonzero and differs from 1, and the dispatch returns \<^verbatim>\<open>UR_OK\<close> with no call made,
  the current state still 1 and the flow state as it was.
\<close>

theorem dispatch_transition_iff_counterexample:
  "cascading_lookup (ex_entity ex_dangling_states 1 []) 0x0100 =
     Some (Some \<lparr>rule_signal_id = 0x0100, rule_next_state = 9, rule_action = None\<rparr>) \<and>
   (9 :: 16 word) \<noteq> 0 \<and> 9 \<noteq> current_state (ex_entity ex_dangling_states 1 []) \<and>
   find_state (ex_entity ex_dangling_states 1 []) 1 =
     Some \<lparr>st_id = 1, st_parent_id = 0, st_on_entry = None, st_on_exit = Some 11,
       st_rules = Some [\<lparr>rule_signal_id = 0x0100, rule_next_state = 9, rule_action = None\<rparr>]\<rparr> \<and>
   ur_dispatch ex_aenv ex_menv 0 (ex_entity ex_dangling_states 1 [ex_signal 0x0100], []) =
     Some (UR_OK, ex_entity ex_dangling_states 1 [], [])"
  by code_simp

text \<open>
  C3 (amended). When the middleware chain lets the signal through and the lookup finds a
  rule: a non-null action of the rule is invoked once, with the entity and the signal; the
  next state is the action's result when that is nonzero and the rule's declared next
  state when it is 0. If the next state is 0 or equals the current state, nothing more
  happens. If it is nonzero, differs from the current state, but is not in the state
  table, nothing more happens either. If it is in the state table (and the current state
  is a nonzero id of the table), the old state's on-exit runs with a \<open>SIG_SYS_EXIT\<close>
  signal from the entity itself, then the flow state (line, awaited signal, wake time,
  flow-running flag) is reset and the current state id swapped, then the new state's
  on-entry runs with a \<open>SIG_SYS_ENTRY\<close> signal, in that order.
\<close>

theorem dispatch_transition_protocol:
  assumes "ent_flags ent AND UR_FLAG_ACTIVE \<noteq> 0"
    and "ent_flags ent AND UR_FLAG_SUSPENDED = 0"
    and "inbox ent = sig0 # rest"
    and "run_middleware_chain menv (ent\<lparr>inbox := rest\<rparr>) sig0 log = (UR_MW_CONTINUE, ent1, sig, log1)"
    and "cascading_lookup ent1 (sig_id sig) = Some (Some rule)"
    and "(case rule_action rule of None \<Rightarrow> (0, ent1) | Some f \<Rightarrow> aenv f ent1 sig) = (action_result, ent2)"
    and "log2 = log1 @ (case rule_action rule of None \<Rightarrow> [] | Some f \<Rightarrow> [RuleActionCall f sig])"
    and "next_state = (if action_result \<noteq> 0 then action_result else rule_next_state rule)"
  shows "(next_state = 0 \<or> next_state = current_state ent2 \<longrightarrow>
            ur_dispatch aenv menv now (ent, log) = Some (UR_OK, ent2, log2)) \<and>
         (next_state \<noteq> 0 \<and> next_state \<noteq> current_state ent2 \<and> find_state ent2 next_state = None \<longrightarrow>
            ur_dispatch aenv menv now (ent, log) = Some (UR_OK, ent2, log2)) \<and>
         (\<forall>new_state old_state.
            next_state \<noteq> 0 \<and> next_state \<noteq> current_state ent2 \<and>
            find_state ent2 next_state = Some new_state \<and>
            current_state ent2 \<noteq> 0 \<and> find_state ent2 (current_state ent2) = Some old_state \<longrightarrow>
            ur_dispatch aenv menv now (ent, log) =
              Some (let exit_sig = (ur_signal_create SIG_NONE (ent_id ent2) now)\<lparr>sig_id := SIG_SYS_EXIT\<rparr>;
                        entry_sig = (ur_signal_create SIG_NONE (ent_id ent2) now)\<lparr>sig_id := SIG_SYS_ENTRY\<rparr>;
                        after_exit = (case st_on_exit old_state of None \<Rightarrow> ent2
                                      | Some f \<Rightarrow> snd (aenv f ent2 exit_sig));
                        swapped = after_exit\<lparr>flow_line := 0, flow_wait_sig := 0, flow_wait_until := 0,
                                    ent_flags := ent_flags after_exit AND NOT UR_FLAG_FLOW_RUNNING,
                                    current_state := next_state\<rparr>
                    in (UR_OK,
                        (case st_on_entry new_state of None \<Rightarrow> swapped
                         | Some g \<Rightarrow> snd (aenv g swapped entry_sig)),
                        log2 @ (case st_on_exit old_state of None \<Rightarrow> [] | Some f \<Rightarrow> [OnExitCall f exit_sig])
                             @ (case st_on_entry new_state of None \<Rightarrow> [] | Some g \<Rightarrow> [OnEntryCall g entry_sig]))))"
proof -
  note d = dispatch_to_rules [OF assms(1-4), of aenv now]
  have r: "dispatch_rules aenv now ent1 sig log1 =
      (if next_state \<noteq> 0 \<and> next_state \<noteq> current_state ent2
       then (case ur_set_state aenv now (ent2, log2) next_state of
               (err, ent3, log3) \<Rightarrow> Some (UR_OK, ent3, log3))
       else Some (UR_OK, ent2, log2))"
    using assms(5-8) by (auto simp add: dispatch_rules_def split: option.splits prod.splits)
  show ?thesis
  proof (intro conjI allI impI)
    assume "next_state = 0 \<or> next_state = current_state ent2"
    then show "ur_dispatch aenv menv now (ent, log) = Some (UR_OK, ent2, log2)"
      using d r by auto
  next
    assume "next_state \<noteq> 0 \<and> next_state \<noteq> current_state ent2 \<and> find_state ent2 next_state = None"
    then show "ur_dispatch aenv menv now (ent, log) = Some (UR_OK, ent2, log2)"
      using d r by (simp add: set_state_missing)
  next
    fix new_state old_state
    assume a: "next_state \<noteq> 0 \<and> next_state \<noteq> current_state ent2 \<and>
            find_state ent2 next_state = Some new_state \<and>
            current_state ent2 \<noteq> 0 \<and> find_state ent2 (current_state ent2) = Some old_state"
    then have s: "find_state ent2 next_state = Some new_state" "current_state ent2 \<noteq> 0"
      "find_state ent2 (current_state ent2) = Some old_state" by simp_all
    show "ur_dispatch aenv menv now (ent, log) =
              Some (let exit_sig = (ur_signal_create SIG_NONE (ent_id ent2) now)\<lparr>sig_id := SIG_SYS_EXIT\<rparr>;
                        entry_sig = (ur_signal_create SIG_NONE (ent_id ent2) now)\<lparr>sig_id := SIG_SYS_ENTRY\<rparr>;
                        after_exit = (case st_on_exit old_state of None \<Rightarrow> ent2
                                      | Some f \<Rightarrow> snd (aenv f ent2 exit_sig));
                        swapped = after_exit\<lparr>flow_line := 0, flow_wait_sig := 0, flow_wait_until := 0,
                                    ent_flags := ent_flags after_exit AND NOT UR_FLAG_FLOW_RUNNING,
                                    current_state := next_state\<rparr>
                    in (UR_OK,
                        (case st_on_entry new_state of None \<Rightarrow> swapped
                         | Some g \<Rightarrow> snd (aenv g swapped entry_sig)),
                        log2 @ (case st_on_exit old_state of None \<Rightarrow> [] | Some f \<Rightarrow> [OnExitCall f exit_sig])
                             @ (case st_on_entry new_state of None \<Rightarrow> [] | Some g \<Rightarrow> [OnEntryCall g entry_sig])))"
      using d r a by (simp add: set_state_found [OF s] Let_def)
  qed
qed

theorem dispatch_transition_protocol_witness:
  "ur_dispatch ex_aenv ex_menv 0 (ex_entity ex_button_states 1 [ex_signal 0x0100], []) =
     Some (UR_OK,
           \<lparr>ent_id = 1, current_state = 2, ent_flags = 1, states = ex_button_states,
            initial_state = 1, mixins = [], middleware = [], flow_line = 0, flow_wait_sig = 0,
            flow_wait_until = 0, scratch = [10, 11, 12], inbox = []\<rparr>,
           [RuleActionCall 10 (ex_signal 0x0100),
            OnExitCall 11 \<lparr>sig_id = 3, sig_src_id = 1, sig_payload = [0, 0, 0, 0], sig_ptr = 0,
                           sig_timestamp = 0\<rparr>,
            OnEntryCall 12 \<lparr>sig_id = 2, sig_src_id = 1, sig_payload = [0, 0, 0, 0], sig_ptr = 0,
                            sig_timestamp = 0\<rparr>])"
proof -
  let ?ent = "ex_entity ex_button_states 1 [ex_signal 0x0100]"
  let ?ent1 = "ex_entity ex_button_states 1 []"
  let ?ent2 = "(ex_entity ex_button_states 1 [])\<lparr>scratch := [10]\<rparr>"
  let ?rule = "\<lparr>rule_signal_id = 0x0100, rule_next_state = 2, rule_action = Some 10\<rparr>"
  let ?old = "ex_button_states ! 0"
  let ?new = "ex_button_states ! 1"
  have h: "ent_flags ?ent AND UR_FLAG_ACTIVE \<noteq> 0"
    "ent_flags ?ent AND UR_FLAG_SUSPENDED = 0"
    "inbox ?ent = ex_signal 0x0100 # []"
    "run_middleware_chain ex_menv (?ent\<lparr>inbox := []\<rparr>) (ex_signal 0x0100) [] =
       (UR_MW_CONTINUE, ?ent1, ex_signal 0x0100, [])"
    "cascading_lookup ?ent1 (sig_id (ex_signal 0x0100)) = Some (Some ?rule)"
    "(case rule_action ?rule of None \<Rightarrow> (0, ?ent1) | Some f \<Rightarrow> ex_aenv f ?ent1 (ex_signal 0x0100)) = (0, ?ent2)"
    "[RuleActionCall 10 (ex_signal 0x0100)] =
       [] @ (case rule_action ?rule of None \<Rightarrow> [] | Some f \<Rightarrow> [RuleActionCall f (ex_signal 0x0100)])"
    "(2 :: 16 word) = (if (0 :: 16 word) \<noteq> 0 then 0 else rule_next_state ?rule)"
    by (simp_all add: ex_defs chain_empty cascading_lookup_def find_state_def find_rule_in_state_def)
  have g: "(2 :: 16 word) \<noteq> 0 \<and> 2 \<noteq> current_state ?ent2 \<and>
            find_state ?ent2 2 = Some ?new \<and>
            current_state ?ent2 \<noteq> 0 \<and> find_state ?ent2 (current_state ?ent2) = Some ?old"
    by (simp add: ex_defs find_state_def)
  note t = dispatch_transition_protocol
            [where aenv = ex_aenv and menv = ex_menv and now = 0 and log = "[]" and ent = ?ent
               and ?sig0.0 = "ex_signal 0x0100" and rest = "[]" and ?ent1.0 = ?ent1
               and sig = "ex_signal 0x0100" and ?log1.0 = "[]" and rule = ?rule
               and action_result = 0 and ?ent2.0 = ?ent2
               and ?log2.0 = "[RuleActionCall 10 (ex_signal 0x0100)]" and next_state = 2, OF h]
  from t [THEN conjunct2, THEN conjunct2, rule_format, OF g]
  show ?thesis by (simp add: ex_defs Let_def)
qed

text \<open>
  C9. \<^verbatim>\<open>ur_set_state\<close> with the id of the current state (nonzero, in the table) is
  not short-circuited: the state's on-exit action runs (when there is one), the flow
  state is zeroed, the current state is written with the same id, the same state's
  on-entry action runs (when there is one), and the result is \<^verbatim>\<open>UR_OK\<close>.
\<close>

theorem set_state_same_id_runs_hooks:
  assumes "find_state ent state_id = Some st"
    and "current_state ent = state_id"
    and "state_id \<noteq> 0"
  shows "ur_set_state aenv now (ent, log) state_id =
     (let exit_sig = (ur_signal_create SIG_NONE (ent_id ent) now)\<lparr>sig_id := SIG_SYS_EXIT\<rparr>;
          entry_sig = (ur_signal_create SIG_NONE (ent_id ent) now)\<lparr>sig_id := SIG_SYS_ENTRY\<rparr>;
          after_exit = (case st_on_exit st of None \<Rightarrow> ent | Some f \<Rightarrow> snd (aenv f ent exit_sig));
          swapped = after_exit\<lparr>flow_line := 0, flow_wait_sig := 0, flow_wait_until := 0,
                      ent_flags := ent_flags after_exit AND NOT UR_FLAG_FLOW_RUNNING,
                      current_state := current_state ent\<rparr>
      in (UR_OK,
          (case st_on_entry st of None \<Rightarrow> swapped | Some g \<Rightarrow> snd (aenv g swapped entry_sig)),
          log @ (case st_on_exit st of None \<Rightarrow> [] | Some f \<Rightarrow> [OnExitCall f exit_sig])
              @ (case st_on_entry st of None \<Rightarrow> [] | Some g \<Rightarrow> [OnEntryCall g entry_sig])))"
  using assms
  by (simp add: ur_set_state_def flow_reset_def SIG_NONE_def Let_def split: option.splits)

theorem set_state_same_id_runs_hooks_witness:
  "ur_set_state ex_aenv 0 (ex_entity ex_hsm_states 2 [], []) 2 =
     (UR_OK,
      \<lparr>ent_id = 1, current_state = 2, ent_flags = 1, states = ex_hsm_states,
       initial_state = 1, mixins = [], middleware = [], flow_line = 0, flow_wait_sig = 0,
       flow_wait_until = 0, scratch = [22, 23], inbox = []\<rparr>,
      [OnExitCall 22 \<lparr>sig_id = 3, sig_src_id = 1, sig_payload = [0, 0, 0, 0], sig_ptr = 0,
                      sig_timestamp = 0\<rparr>,
       OnEntryCall 23 \<lparr>sig_id = 2, sig_src_id = 1, sig_payload = [0, 0, 0, 0], sig_ptr = 0,
                       sig_timestamp = 0\<rparr>])"
proof -
  let ?ent = "ex_entity ex_hsm_states 2 []"
  have h: "find_state ?ent 2 = Some (ex_hsm_states ! 1)" "current_state ?ent = 2" "(2 :: 16 word) \<noteq> 0"
    by (simp_all add: ex_defs find_state_def)
  from set_state_same_id_runs_hooks [where aenv = ex_aenv and now = 0 and log = "[]", OF h]
  show ?thesis by (simp add: ex_defs Let_def)
qed

text \<open>
  C8. For an active, unsuspended entity with a signal in its inbox: when the middleware
  chain ends with HANDLED or FILTERED, \<^verbatim>\<open>ur_dispatch\<close> returns \<^verbatim>\<open>UR_OK\<close> at once, with
  the entity exactly as the middleware functions left it; the only calls made are
  middleware calls (no rule lookup result is used, no rule action, on-exit or on-entry
  runs), and if no middleware function touches the current state or the flow state, these
  are what they were before the dispatch. When the chain does not end that way, the
  dispatch goes on to the rule matching, on the entity and the signal as the chain left
  them. Inside the chain, an enabled middleware that returns HANDLED or FILTERED ends
  it with that result; one that returns CONTINUE or TRANSFORM hands the entity and the
  signal on to the next index; a disabled entry or one without a function is passed
  over; past the last entry the chain ends with CONTINUE. So the chain's result is
  CONTINUE unless the last middleware called returned HANDLED or FILTERED, and a chain
  in which no middleware returns HANDLED or FILTERED always reaches the rule matching.
\<close>

theorem middleware_stop_skips_rules:
  assumes "ent_flags ent AND UR_FLAG_ACTIVE \<noteq> 0"
    and "ent_flags ent AND UR_FLAG_SUSPENDED = 0"
    and "inbox ent = sig0 # rest"
    and "run_middleware_chain menv (ent\<lparr>inbox := rest\<rparr>) sig0 log = (r, ent1, sig, log1)"
  shows "(r = UR_MW_HANDLED \<or> r = UR_MW_FILTERED \<longrightarrow>
            ur_dispatch aenv menv now (ent, log) = Some (UR_OK, ent1, log1) \<and>
            (\<exists>calls. log1 = log @ calls \<and> (\<forall>c\<in>set calls. \<exists>f s. c = MiddlewareCall f s)) \<and>
            ((\<forall>f e s c. fsm_fields (fst (snd (menv f e s c))) = fsm_fields e) \<longrightarrow>
               fsm_fields ent1 = fsm_fields ent)) \<and>
         (r \<noteq> UR_MW_HANDLED \<and> r \<noteq> UR_MW_FILTERED \<longrightarrow>
            ur_dispatch aenv menv now (ent, log) = dispatch_rules aenv now ent1 sig log1) \<and>
         (\<forall>i e s l f r' e' s'.
            i < length (middleware e) \<and> i < UR_CFG_MAX_MIDDLEWARE \<and>
            mw_fn (middleware e ! i) = Some f \<and> mw_enabled (middleware e ! i) \<noteq> 0 \<and>
            menv f e s (mw_ctx (middleware e ! i)) = (r', e', s') \<longrightarrow>
            run_middleware_chain_from menv i e s l =
              (if r' = UR_MW_HANDLED \<or> r' = UR_MW_FILTERED
               then (r', e', s', l @ [MiddlewareCall f s])
               else run_middleware_chain_from menv (Suc i) e' s' (l @ [MiddlewareCall f s]))) \<and>
         (r = UR_MW_CONTINUE \<or>
            (r = UR_MW_HANDLED \<or> r = UR_MW_FILTERED) \<and>
            (\<exists>f e s c l. menv f e s c = (r, ent1, sig) \<and> log1 = l @ [MiddlewareCall f s])) \<and>
         ((\<forall>f e s c. fst (menv f e s c) \<noteq> UR_MW_HANDLED \<and> fst (menv f e s c) \<noteq> UR_MW_FILTERED) \<longrightarrow>
            r = UR_MW_CONTINUE \<and>
            ur_dispatch aenv menv now (ent, log) = dispatch_rules aenv now ent1 sig log1) \<and>
         (\<forall>i e s l.
            \<not> (i < length (middleware e) \<and> i < UR_CFG_MAX_MIDDLEWARE) \<longrightarrow>
            run_middleware_chain_from menv i e s l = (UR_MW_CONTINUE, e, s, l)) \<and>
         (\<forall>i e s l.
            i < length (middleware e) \<and> i < UR_CFG_MAX_MIDDLEWARE \<and>
            (mw_fn (middleware e ! i) = None \<or> mw_enabled (middleware e ! i) = 0) \<longrightarrow>
            run_middleware_chain_from menv i e s l = run_middleware_chain_from menv (Suc i) e s l)"
proof -
  have d: "ur_dispatch aenv menv now (ent, log) =
      (if r = UR_MW_FILTERED \<or> r = UR_MW_HANDLED then Some (UR_OK, ent1, log1)
       else dispatch_rules aenv now ent1 sig log1)"
    using assms by (simp add: ur_dispatch_def)
  have f: "fsm_fields (ent\<lparr>inbox := rest\<rparr>) = fsm_fields ent"
    by (simp add: fsm_fields_def)
  have a: "r = UR_MW_HANDLED \<or> r = UR_MW_FILTERED \<longrightarrow>
            ur_dispatch aenv menv now (ent, log) = Some (UR_OK, ent1, log1) \<and>
            (\<exists>calls. log1 = log @ calls \<and> (\<forall>c\<in>set calls. \<exists>f s. c = MiddlewareCall f s)) \<and>
            ((\<forall>f e s c. fsm_fields (fst (snd (menv f e s c))) = fsm_fields e) \<longrightarrow>
               fsm_fields ent1 = fsm_fields ent)"
    using d chain_calls [OF assms(4)] chain_fsm_fields [OF assms(4)] f by auto
  have b: "r \<noteq> UR_MW_HANDLED \<and> r \<noteq> UR_MW_FILTERED \<longrightarrow>
            ur_dispatch aenv menv now (ent, log) = dispatch_rules aenv now ent1 sig log1"
    using d by simp
  have c: "\<forall>i e s l f r' e' s'.
            i < length (middleware e) \<and> i < UR_CFG_MAX_MIDDLEWARE \<and>
            mw_fn (middleware e ! i) = Some f \<and> mw_enabled (middleware e ! i) \<noteq> 0 \<and>
            menv f e s (mw_ctx (middleware e ! i)) = (r', e', s') \<longrightarrow>
            run_middleware_chain_from menv i e s l =
              (if r' = UR_MW_HANDLED \<or> r' = UR_MW_FILTERED
               then (r', e', s', l @ [MiddlewareCall f s])
               else run_middleware_chain_from menv (Suc i) e' s' (l @ [MiddlewareCall f s]))"
    by (intro allI impI, elim conjE, rule chain_step)
  have res: "r = UR_MW_CONTINUE \<or>
            (r = UR_MW_HANDLED \<or> r = UR_MW_FILTERED) \<and>
            (\<exists>f e s c l. menv f e s c = (r, ent1, sig) \<and> log1 = l @ [MiddlewareCall f s])"
    by (rule chain_from_result [OF assms(4) [unfolded run_middleware_chain_def]])
  have pass: "(\<forall>f e s c. fst (menv f e s c) \<noteq> UR_MW_HANDLED \<and> fst (menv f e s c) \<noteq> UR_MW_FILTERED) \<longrightarrow>
            r = UR_MW_CONTINUE \<and>
            ur_dispatch aenv menv now (ent, log) = dispatch_rules aenv now ent1 sig log1"
  proof
    assume n: "\<forall>f e s c. fst (menv f e s c) \<noteq> UR_MW_HANDLED \<and> fst (menv f e s c) \<noteq> UR_MW_FILTERED"
    have "r = UR_MW_CONTINUE"
    proof (rule ccontr)
      assume "r \<noteq> UR_MW_CONTINUE"
      with res obtain f e s c l
        where st: "r = UR_MW_HANDLED \<or> r = UR_MW_FILTERED" and m: "menv f e s c = (r, ent1, sig)"
        by blast
      from m have "fst (menv f e s c) = r" by simp
      with n st show False by blast
    qed
    with d show "r = UR_MW_CONTINUE \<and>
            ur_dispatch aenv menv now (ent, log) = dispatch_rules aenv now ent1 sig log1"
      by simp
  qed
  have last: "\<forall>i e s l.
            \<not> (i < length (middleware e) \<and> i < UR_CFG_MAX_MIDDLEWARE) \<longrightarrow>
            run_middleware_chain_from menv i e s l = (UR_MW_CONTINUE, e, s, l)"
    by (intro allI impI) (rule chain_end)
  have skip: "\<forall>i e s l.
            i < length (middleware e) \<and> i < UR_CFG_MAX_MIDDLEWARE \<and>
            (mw_fn (middleware e ! i) = None \<or> mw_enabled (middleware e ! i) = 0) \<longrightarrow>
            run_middleware_chain_from menv i e s l = run_middleware_chain_from menv (Suc i) e s l"
    by (intro allI impI, elim conjE, rule chain_skip)
  from a b c res pass last skip show ?thesis by (intro conjI)
qed

theorem middleware_stop_skips_rules_witness:
  "(ur_dispatch ex_aenv ex_menv 0 (ex_mw_entity, []) =
      Some (UR_OK, ex_mw_entity\<lparr>inbox := []\<rparr>,
            [MiddlewareCall 1 (ex_signal 0x0100),
             MiddlewareCall 2 ((ex_signal 0x0100)\<lparr>sig_src_id := 9\<rparr>)]) \<and>
    cascading_lookup (ex_mw_entity\<lparr>inbox := []\<rparr>) 0x0100 =
      Some (Some \<lparr>rule_signal_id = 0x0100, rule_next_state = 2, rule_action = Some 10\<rparr>) \<and>
    fsm_fields (ex_mw_entity\<lparr>inbox := []\<rparr>) = fsm_fields ex_mw_entity) \<and>
   ur_dispatch ex_aenv ex_pass_menv 0 (ex_mw_pass_entity, []) =
     Some (UR_OK,
           ex_mw_pass_entity
             \<lparr>current_state := 2, flow_line := 0, flow_wait_sig := 0, flow_wait_until := 0,
              scratch := [10, 11, 12], inbox := []\<rparr>,
           [MiddlewareCall 1 (ex_signal 0x0100),
            MiddlewareCall 3 ((ex_signal 0x0100)\<lparr>sig_src_id := 9\<rparr>),
            RuleActionCall 10 ((ex_signal 0x0100)\<lparr>sig_src_id := 9\<rparr>),
            OnExitCall 11 \<lparr>sig_id = 3, sig_src_id = 1, sig_payload = [0, 0, 0, 0], sig_ptr = 0,
                           sig_timestamp = 0\<rparr>,
            OnEntryCall 12 \<lparr>sig_id = 2, sig_src_id = 1, sig_payload = [0, 0, 0, 0], sig_ptr = 0,
                            sig_timestamp = 0\<rparr>])"
proof -
  have h: "ent_flags ex_mw_entity AND UR_FLAG_ACTIVE \<noteq> 0"
    "ent_flags ex_mw_entity AND UR_FLAG_SUSPENDED = 0"
    "inbox ex_mw_entity = ex_signal 0x0100 # []"
    "run_middleware_chain ex_menv (ex_mw_entity\<lparr>inbox := []\<rparr>) (ex_signal 0x0100) [] =
       (UR_MW_FILTERED, ex_mw_entity\<lparr>inbox := []\<rparr>, (ex_signal 0x0100)\<lparr>sig_src_id := 9\<rparr>,
        [MiddlewareCall 1 (ex_signal 0x0100),
         MiddlewareCall 2 ((ex_signal 0x0100)\<lparr>sig_src_id := 9\<rparr>)])"
    by code_simp+
  have l: "cascading_lookup (ex_mw_entity\<lparr>inbox := []\<rparr>) 0x0100 =
     Some (Some \<lparr>rule_signal_id = 0x0100, rule_next_state = 2, rule_action = Some 10\<rparr>)"
    by code_simp
  have e: "\<forall>f e s c. fsm_fields (fst (snd (ex_menv f e s c))) = fsm_fields e"
    by (simp add: ex_menv_def)
  from middleware_stop_skips_rules [where aenv = ex_aenv and now = 0, OF h, THEN conjunct1] l e
  have stop: "ur_dispatch ex_aenv ex_menv 0 (ex_mw_entity, []) =
      Some (UR_OK, ex_mw_entity\<lparr>inbox := []\<rparr>,
            [MiddlewareCall 1 (ex_signal 0x0100),
             MiddlewareCall 2 ((ex_signal 0x0100)\<lparr>sig_src_id := 9\<rparr>)]) \<and>
    cascading_lookup (ex_mw_entity\<lparr>inbox := []\<rparr>) 0x0100 =
      Some (Some \<lparr>rule_signal_id = 0x0100, rule_next_state = 2, rule_action = Some 10\<rparr>) \<and>
    fsm_fields (ex_mw_entity\<lparr>inbox := []\<rparr>) = fsm_fields ex_mw_entity"
    by simp
  have h': "ent_flags ex_mw_pass_entity AND UR_FLAG_ACTIVE \<noteq> 0"
    "ent_flags ex_mw_pass_entity AND UR_FLAG_SUSPENDED = 0"
    "inbox ex_mw_pass_entity = ex_signal 0x0100 # []"
    "run_middleware_chain ex_pass_menv (ex_mw_pass_entity\<lparr>inbox := []\<rparr>) (ex_signal 0x0100) [] =
       (UR_MW_CONTINUE, ex_mw_pass_entity\<lparr>inbox := []\<rparr>, (ex_signal 0x0100)\<lparr>sig_src_id := 9\<rparr>,
        [MiddlewareCall 1 (ex_signal 0x0100),
         MiddlewareCall 3 ((ex_signal 0x0100)\<lparr>sig_src_id := 9\<rparr>)])"
    by code_simp+
  have n: "\<forall>f e s c. fst (ex_pass_menv f e s c) \<noteq> UR_MW_HANDLED \<and>
                     fst (ex_pass_menv f e s c) \<noteq> UR_MW_FILTERED"
    by (simp add: ex_pass_menv_def)
  have r: "dispatch_rules ex_aenv 0 (ex_mw_pass_entity\<lparr>inbox := []\<rparr>)
             ((ex_signal 0x0100)\<lparr>sig_src_id := 9\<rparr>)
             [MiddlewareCall 1 (ex_signal 0x0100),
              MiddlewareCall 3 ((ex_signal 0x0100)\<lparr>sig_src_id := 9\<rparr>)] =
     Some (UR_OK,
           ex_mw_pass_entity
             \<lparr>current_state := 2, flow_line := 0, flow_wait_sig := 0, flow_wait_until := 0,
              scratch := [10, 11, 12], inbox := []\<rparr>,
           [MiddlewareCall 1 (ex_signal 0x0100),
            MiddlewareCall 3 ((ex_signal 0x0100)\<lparr>sig_src_id := 9\<rparr>),
            RuleActionCall 10 ((ex_signal 0x0100)\<lparr>sig_src_id := 9\<rparr>),
            OnExitCall 11 \<lparr>sig_id = 3, sig_src_id = 1, sig_payload = [0, 0, 0, 0], sig_ptr = 0,
                           sig_timestamp = 0\<rparr>,
            OnEntryCall 12 \<lparr>sig_id = 2, sig_src_id = 1, sig_payload = [0, 0, 0, 0], sig_ptr = 0,
                            sig_timestamp = 0\<rparr>])"
    by code_simp
  note t = middleware_stop_skips_rules [where aenv = ex_aenv and now = 0, OF h']
  from t [THEN conjunct2, THEN conjunct2, THEN conjunct2, THEN conjunct2, THEN conjunct1,
          THEN mp, OF n]
  have "ur_dispatch ex_aenv ex_pass_menv 0 (ex_mw_pass_entity, []) =
     dispatch_rules ex_aenv 0 (ex_mw_pass_entity\<lparr>inbox := []\<rparr>)
       ((ex_signal 0x0100)\<lparr>sig_src_id := 9\<rparr>)
       [MiddlewareCall 1 (ex_signal 0x0100),
        MiddlewareCall 3 ((ex_signal 0x0100)\<lparr>sig_src_id := 9\<rparr>)]"
    by (rule conjunct2)
  with r have pass: "ur_dispatch ex_aenv ex_pass_menv 0 (ex_mw_pass_entity, []) =
     Some (UR_OK,
           ex_mw_pass_entity
             \<lparr>current_state := 2, flow_line := 0, flow_wait_sig := 0, flow_wait_until := 0,
              scratch := [10, 11, 12], inbox := []\<rparr>,
           [MiddlewareCall 1 (ex_signal 0x0100),
            MiddlewareCall 3 ((ex_signal 0x0100)\<lparr>sig_src_id := 9\<rparr>),
            RuleActionCall 10 ((ex_signal 0x0100)\<lparr>sig_src_id := 9\<rparr>),
            OnExitCall 11 \<lparr>sig_id = 3, sig_src_id = 1, sig_payload = [0, 0, 0, 0], sig_ptr = 0,
                           sig_timestamp = 0\<rparr>,
            OnEntryCall 12 \<lparr>sig_id = 2, sig_src_id = 1, sig_payload = [0, 0, 0, 0], sig_ptr = 0,
                            sig_timestamp = 0\<rparr>])"
    by (simp only:)
  from stop pass show ?thesis by (rule conjI)
qed

section \<open>Access control list: results\<close>

lemma match_source_cases:
  "match_source UR_ACL_SRC_ANY s"
  "match_source UR_ACL_SRC_LOCAL s \<longleftrightarrow> 1 \<le> unat s \<and> unat s \<le> UR_CFG_MAX_ENTITIES"
  "match_source UR_ACL_SRC_EXTERNAL s \<longleftrightarrow> unat s = 0 \<or> unat s > UR_CFG_MAX_ENTITIES"
  "r \<noteq> UR_ACL_SRC_ANY \<Longrightarrow> r \<noteq> UR_ACL_SRC_LOCAL \<Longrightarrow> r \<noteq> UR_ACL_SRC_EXTERNAL \<Longrightarrow>
     match_source r s \<longleftrightarrow> s = r"
  by (auto simp add: match_source_def UR_ACL_SRC_ANY_def UR_ACL_SRC_LOCAL_def
      UR_ACL_SRC_EXTERNAL_def word_le_nat_alt unat_eq_0)

lemma match_signal_cases:
  "match_signal UR_ACL_SIG_ANY s"
  "match_signal UR_ACL_SIG_SYSTEM s \<longleftrightarrow> 0x0001 \<le> unat s \<and> unat s \<le> 0x00FF"
  "match_signal UR_ACL_SIG_USER s \<longleftrightarrow> unat s \<ge> 0x0100"
  "r \<noteq> UR_ACL_SIG_ANY \<Longrightarrow> r \<noteq> UR_ACL_SIG_SYSTEM \<Longrightarrow> r \<noteq> UR_ACL_SIG_USER \<Longrightarrow>
     match_signal r s \<longleftrightarrow> s = r"
  by (auto simp add: match_signal_def UR_ACL_SIG_ANY_def UR_ACL_SIG_SYSTEM_def
      UR_ACL_SIG_USER_def word_le_nat_alt)

lemma find_matching_rule_in_find:
  "find_matching_rule_in rules sig =
     find (\<lambda>r. match_source (acl_src_id r) (sig_src_id sig) \<and>
                match_signal (acl_signal_id r) (sig_id sig)) rules"
  by (induction rules) auto

lemma acl_check_entry:
  assumes "acl_initialized g" and "find_acl_entry g eid = Some entry"
  shows "fst (ur_acl_check g eid sig) =
     (case find_matching_rule_in (acl_rules entry) sig of
        Some rule \<Rightarrow> acl_action rule
      | None \<Rightarrow> (case acl_default_policy entry of
                   UR_ACL_DEFAULT_ALLOW \<Rightarrow> UR_ACL_ALLOW
                 | UR_ACL_DEFAULT_DENY \<Rightarrow> UR_ACL_DENY))"
  using assms
  by (auto simp add: ur_acl_check_def Let_def find_acl_entry_def find_matching_rule_def
      split: option.splits ur_acl_default_t.splits)

lemma acl_insert_pos_le: "acl_insert_pos rules rule \<le> length rules"
  by (induction rules) auto

lemma acl_insert_rule_sorted:
  "sorted (map acl_priority rules) \<Longrightarrow> sorted (map acl_priority (acl_insert_rule rules rule))"
proof (induction rules)
  case Nil
  then show ?case by (simp add: acl_insert_rule_def)
next
  case (Cons r rs)
  show ?case
  proof (cases "acl_priority rule < acl_priority r")
    case True
    with Cons.prems show ?thesis
      by (auto simp add: acl_insert_rule_def Let_def)
  next
    case False
    from Cons have ih: "sorted (map acl_priority (acl_insert_rule rs rule))" by simp
    have set: "set (acl_insert_rule rs rule) = insert rule (set rs)"
      unfolding acl_insert_rule_def Let_def
      by (metis Un_insert_right append_Cons append_Nil append_take_drop_id list.simps(15) set_append)
    from False Cons.prems ih set show ?thesis
      by (auto simp add: acl_insert_rule_def Let_def dest: in_set_takeD in_set_dropD)
  qed
qed

lemma acl_add_rule_sorted:
  "sorted (map acl_priority rules) \<Longrightarrow>
     sorted (map acl_priority (snd (acl_add_rule_to rules rule)))"
  by (simp add: acl_add_rule_to_def acl_insert_rule_sorted)

text \<open>
  C6. For an initialised ACL and an entity that has an entry: \<^verbatim>\<open>ur_acl_check\<close> returns
  the action of the first rule of the table whose source predicate matches the signal's
  source id and whose signal predicate matches the signal's id, and the entry's default
  policy (ALLOW or DENY) when no rule matches. The table is kept in priority order
  (\<^verbatim>\<open>ur_acl_add_rule\<close> inserts before the first rule of greater priority, or leaves a
  full table as it is), and on a table
  in priority order the rule found has the least priority of all matching rules. The
  predicates: source ANY matches everything, LOCAL matches ids in 1..N for
  \<open>N = UR_CFG_MAX_ENTITIES\<close>, EXTERNAL matches 0 and ids above N, any other value only
  itself; signal ANY matches everything, SYSTEM matches 0x0001..0x00FF, USER matches ids
  from 0x0100, any other value only itself.
\<close>

theorem acl_check_first_match:
  assumes "acl_initialized g" and "find_acl_entry g eid = Some entry"
  shows "(\<forall>i. i < length (acl_rules entry) \<and>
              match_source (acl_src_id (acl_rules entry ! i)) (sig_src_id sig) \<and>
              match_signal (acl_signal_id (acl_rules entry ! i)) (sig_id sig) \<and>
              (\<forall>j<i. \<not> (match_source (acl_src_id (acl_rules entry ! j)) (sig_src_id sig) \<and>
                         match_signal (acl_signal_id (acl_rules entry ! j)) (sig_id sig))) \<longrightarrow>
              fst (ur_acl_check g eid sig) = acl_action (acl_rules entry ! i)) \<and>
         ((\<forall>r\<in>set (acl_rules entry).
              \<not> (match_source (acl_src_id r) (sig_src_id sig) \<and>
                 match_signal (acl_signal_id r) (sig_id sig))) \<longrightarrow>
            fst (ur_acl_check g eid sig) =
              (case acl_default_policy entry of
                 UR_ACL_DEFAULT_ALLOW \<Rightarrow> UR_ACL_ALLOW
               | UR_ACL_DEFAULT_DENY \<Rightarrow> UR_ACL_DENY)) \<and>
         (\<forall>i k. sorted (map acl_priority (acl_rules entry)) \<and>
              i < length (acl_rules entry) \<and> k < length (acl_rules entry) \<and>
              find_matching_rule entry sig = Some (acl_rules entry ! i) \<and>
              match_source (acl_src_id (acl_rules entry ! k)) (sig_src_id sig) \<and>
              match_signal (acl_signal_id (acl_rules entry ! k)) (sig_id sig) \<longrightarrow>
              acl_priority (the (find_matching_rule entry sig)) \<le> acl_priority (acl_rules entry ! k)) \<and>
         (\<forall>rules rule. sorted (map acl_priority rules) \<longrightarrow>
              sorted (map acl_priority (snd (acl_add_rule_to rules rule)))) \<and>
         (\<forall>s. match_source UR_ACL_SRC_ANY s) \<and>
         (\<forall>s. match_source UR_ACL_SRC_LOCAL s \<longleftrightarrow> 1 \<le> unat s \<and> unat s \<le> UR_CFG_MAX_ENTITIES) \<and>
         (\<forall>s. match_source UR_ACL_SRC_EXTERNAL s \<longleftrightarrow> unat s = 0 \<or> unat s > UR_CFG_MAX_ENTITIES) \<and>
         (\<forall>r s. r \<noteq> UR_ACL_SRC_ANY \<and> r \<noteq> UR_ACL_SRC_LOCAL \<and> r \<noteq> UR_ACL_SRC_EXTERNAL \<longrightarrow>
              (match_source r s \<longleftrightarrow> s = r)) \<and>
         (\<forall>s. match_signal UR_ACL_SIG_ANY s) \<and>
         (\<forall>s. match_signal UR_ACL_SIG_SYSTEM s \<longleftrightarrow> 0x0001 \<le> unat s \<and> unat s \<le> 0x00FF) \<and>
         (\<forall>s. match_signal UR_ACL_SIG_USER s \<longleftrightarrow> unat s \<ge> 0x0100) \<and>
         (\<forall>r s. r \<noteq> UR_ACL_SIG_ANY \<and> r \<noteq> UR_ACL_SIG_SYSTEM \<and> r \<noteq> UR_ACL_SIG_USER \<longrightarrow>
              (match_signal r s \<longleftrightarrow> s = r))"
proof -
  let ?P = "\<lambda>r. match_source (acl_src_id r) (sig_src_id sig) \<and>
                match_signal (acl_signal_id r) (sig_id sig)"
  let ?rs = "acl_rules entry"
  note chk = acl_check_entry [OF assms, of sig, unfolded find_matching_rule_in_find]
  have first: "\<forall>i. i < length ?rs \<and> match_source (acl_src_id (?rs ! i)) (sig_src_id sig) \<and>
      match_signal (acl_signal_id (?rs ! i)) (sig_id sig) \<and> (\<forall>j<i. \<not> ?P (?rs ! j)) \<longrightarrow>
      fst (ur_acl_check g eid sig) = acl_action (?rs ! i)"
  proof (intro allI impI)
    fix i assume a: "i < length ?rs \<and> match_source (acl_src_id (?rs ! i)) (sig_src_id sig) \<and>
      match_signal (acl_signal_id (?rs ! i)) (sig_id sig) \<and> (\<forall>j<i. \<not> ?P (?rs ! j))"
    then have "find ?P ?rs = Some (?rs ! i)"
      unfolding find_Some_iff by blast
    with chk show "fst (ur_acl_check g eid sig) = acl_action (?rs ! i)" by simp
  qed
  have none: "(\<forall>r\<in>set ?rs. \<not> ?P r) \<longrightarrow>
      fst (ur_acl_check g eid sig) =
        (case acl_default_policy entry of
           UR_ACL_DEFAULT_ALLOW \<Rightarrow> UR_ACL_ALLOW | UR_ACL_DEFAULT_DENY \<Rightarrow> UR_ACL_DENY)"
  proof
    assume "\<forall>r\<in>set ?rs. \<not> ?P r"
    then have "find ?P ?rs = None" by (simp add: find_None_iff)
    with chk show "fst (ur_acl_check g eid sig) =
        (case acl_default_policy entry of
           UR_ACL_DEFAULT_ALLOW \<Rightarrow> UR_ACL_ALLOW | UR_ACL_DEFAULT_DENY \<Rightarrow> UR_ACL_DENY)" by simp
  qed
  have prio: "\<forall>i k. sorted (map acl_priority ?rs) \<and> i < length ?rs \<and> k < length ?rs \<and>
      find_matching_rule entry sig = Some (?rs ! i) \<and> match_source (acl_src_id (?rs ! k)) (sig_src_id sig) \<and>
      match_signal (acl_signal_id (?rs ! k)) (sig_id sig) \<longrightarrow>
      acl_priority (the (find_matching_rule entry sig)) \<le> acl_priority (?rs ! k)"
  proof (intro allI impI)
    fix i k
    assume a: "sorted (map acl_priority ?rs) \<and> i < length ?rs \<and> k < length ?rs \<and>
      find_matching_rule entry sig = Some (?rs ! i) \<and> match_source (acl_src_id (?rs ! k)) (sig_src_id sig) \<and>
      match_signal (acl_signal_id (?rs ! k)) (sig_id sig)"
    then have "find ?P ?rs = Some (?rs ! i)"
      by (simp add: find_matching_rule_def find_matching_rule_in_find)
    then obtain i' where i': "i' < length ?rs" "?rs ! i = ?rs ! i'" "\<forall>j<i'. \<not> ?P (?rs ! j)"
      unfolding find_Some_iff by blast
    with a have "i' \<le> k" by (meson not_le_imp_less)
    with a i' have "map acl_priority ?rs ! i' \<le> map acl_priority ?rs ! k"
      by (intro sorted_nth_mono) simp_all
    with a i' show "acl_priority (the (find_matching_rule entry sig)) \<le> acl_priority (?rs ! k)"
      by simp
  qed
  have add: "\<forall>rules rule. sorted (map acl_priority rules) \<longrightarrow>
      sorted (map acl_priority (snd (acl_add_rule_to rules rule)))"
    by (simp add: acl_add_rule_sorted)
  have s1: "\<forall>s. match_source UR_ACL_SRC_ANY s"
    and s2: "\<forall>s. match_source UR_ACL_SRC_LOCAL s \<longleftrightarrow> 1 \<le> unat s \<and> unat s \<le> UR_CFG_MAX_ENTITIES"
    and s3: "\<forall>s. match_source UR_ACL_SRC_EXTERNAL s \<longleftrightarrow> unat s = 0 \<or> unat s > UR_CFG_MAX_ENTITIES"
    and s4: "\<forall>r s. r \<noteq> UR_ACL_SRC_ANY \<and> r \<noteq> UR_ACL_SRC_LOCAL \<and> r \<noteq> UR_ACL_SRC_EXTERNAL \<longrightarrow>
              (match_source r s \<longleftrightarrow> s = r)"
    by (simp_all add: match_source_cases)
  have g1: "\<forall>s. match_signal UR_ACL_SIG_ANY s"
    and g2: "\<forall>s. match_signal UR_ACL_SIG_SYSTEM s \<longleftrightarrow> 0x0001 \<le> unat s \<and> unat s \<le> 0x00FF"
    and g3: "\<forall>s. match_signal UR_ACL_SIG_USER s \<longleftrightarrow> unat s \<ge> 0x0100"
    and g4: "\<forall>r s. r \<noteq> UR_ACL_SIG_ANY \<and> r \<noteq> UR_ACL_SIG_SYSTEM \<and> r \<noteq> UR_ACL_SIG_USER \<longrightarrow>
              (match_signal r s \<longleftrightarrow> s = r)"
    by (simp_all add: match_signal_cases)
  show ?thesis
    apply (intro conjI)
               apply (rule first)
              apply (rule none)
             apply (rule prio)
            apply (rule add)
           apply (rule s1)
          apply (rule s2)
         apply (rule s3)
        apply (rule s4)
       apply (rule g1)
      apply (rule g2)
     apply (rule g3)
    apply (rule g4)
    done
qed

lemmas acl_consts =
  UR_ACL_DENY_def UR_ACL_ALLOW_def UR_ACL_LOG_def UR_ACL_TRANSFORM_def
  UR_ACL_SRC_ANY_def UR_ACL_SRC_LOCAL_def UR_ACL_SRC_EXTERNAL_def
  UR_ACL_SIG_ANY_def UR_ACL_SIG_SYSTEM_def UR_ACL_SIG_USER_def

theorem acl_check_first_match_witness:
  "fst (ur_acl_check ex_acl 3 (ex_signal 0x0110)) = UR_ACL_DENY"
proof -
  let ?entry = "hd (acl_entries ex_acl)"
  have h: "acl_initialized ex_acl" "find_acl_entry ex_acl 3 = Some ?entry"
    by (simp_all add: ex_acl_def find_acl_entry_def)
  have p: "1 < length (acl_rules ?entry) \<and>
      match_source (acl_src_id (acl_rules ?entry ! 1)) (sig_src_id (ex_signal 0x0110)) \<and>
      match_signal (acl_signal_id (acl_rules ?entry ! 1)) (sig_id (ex_signal 0x0110)) \<and>
      (\<forall>j<1. \<not> (match_source (acl_src_id (acl_rules ?entry ! j)) (sig_src_id (ex_signal 0x0110)) \<and>
                 match_signal (acl_signal_id (acl_rules ?entry ! j)) (sig_id (ex_signal 0x0110))))"
    by (simp add: ex_acl_def ex_signal_def match_source_def match_signal_def acl_consts
        UR_CFG_MAX_ENTITIES_def)
  from acl_check_first_match [OF h, of "ex_signal 0x0110", THEN conjunct1, rule_format, OF p]
  show ?thesis by (simp add: ex_acl_def)
qed

lemma acl_check_entries:
  "acl_entries (snd (ur_acl_check g eid sig)) = acl_entries g"
  by (simp add: ur_acl_check_def Let_def find_acl_entry_def split: option.splits)

text \<open>
  C10. When \<^verbatim>\<open>ur_acl_check\<close> yields TRANSFORM and the entity's ACL entry has no
  transform callback, \<^verbatim>\<open>ur_acl_filter\<close> passes the signal: it returns true, leaves the
  signal as it is, and counts it as allowed (not as denied, not as transformed).
\<close>

theorem acl_filter_transform_without_callback:
  assumes "fst (ur_acl_check g eid sig) = UR_ACL_TRANSFORM"
    and "find_acl_entry g eid = Some entry"
    and "acl_transform_fn entry = None"
  shows "ur_acl_filter tenv g eid sig = (True, sig, count_allowed (snd (ur_acl_check g eid sig))) \<and>
         allowed_count (acl_stats (snd (snd (ur_acl_filter tenv g eid sig)))) =
           allowed_count (acl_stats g) + 1 \<and>
         denied_count (acl_stats (snd (snd (ur_acl_filter tenv g eid sig)))) =
           denied_count (acl_stats g) \<and>
         transformed_count (acl_stats (snd (snd (ur_acl_filter tenv g eid sig)))) =
           transformed_count (acl_stats g)"
proof -
  obtain a g1 where c: "ur_acl_check g eid sig = (a, g1)"
    by (cases "ur_acl_check g eid sig")
  with assms(1) have a: "a = UR_ACL_TRANSFORM" by simp
  from c acl_check_entries [of g eid sig] have "acl_entries g1 = acl_entries g" by simp
  with assms(2) have e: "find_acl_entry g1 eid = Some entry"
    by (simp add: find_acl_entry_def)
  have f: "ur_acl_filter tenv g eid sig = (True, sig, count_allowed g1)"
    using c a e assms(3) by (simp add: ur_acl_filter_def acl_consts)
  have s: "allowed_count (acl_stats g1) = allowed_count (acl_stats g)"
      "denied_count (acl_stats g1) = denied_count (acl_stats g)"
      "transformed_count (acl_stats g1) = transformed_count (acl_stats g)"
    using c by (auto simp add: ur_acl_check_def Let_def split: if_splits option.splits)
  show ?thesis
    using f c s by (simp add: count_allowed_def)
qed

theorem acl_filter_transform_without_callback_witness:
  "ur_acl_filter ex_tenv ex_acl 3 (ex_signal 0x0120) =
     (True, ex_signal 0x0120,
      ex_acl\<lparr>acl_stats := \<lparr>checked_count = 1, allowed_count = 1, denied_count = 0,
                logged_count = 0, transformed_count = 0, default_count = 0\<rparr>\<rparr>)"
proof -
  have h: "fst (ur_acl_check ex_acl 3 (ex_signal 0x0120)) = UR_ACL_TRANSFORM"
    "find_acl_entry ex_acl 3 = Some (hd (acl_entries ex_acl))"
    "acl_transform_fn (hd (acl_entries ex_acl)) = None"
    by code_simp+
  have c: "snd (ur_acl_check ex_acl 3 (ex_signal 0x0120)) =
      ex_acl\<lparr>acl_stats := \<lparr>checked_count = 1, allowed_count = 0, denied_count = 0,
                logged_count = 0, transformed_count = 0, default_count = 0\<rparr>\<rparr>"
    by code_simp
  from acl_filter_transform_without_callback [OF h, of ex_tenv, THEN conjunct1]
  show ?thesis by (simp add: c count_allowed_def)
qed

section \<open>Publish/subscribe bus: results\<close>

lemma get_entity_range:
  "ur_get_entity reg s = Some e \<Longrightarrow> s \<noteq> 0 \<and> unat s \<le> UR_CFG_MAX_ENTITIES \<and> reg (unat s - 1) = Some e"
  by (auto simp add: ur_get_entity_def split: if_splits)

lemma get_entity_upd_same:
  "ur_get_entity reg s = Some e \<Longrightarrow> ur_get_entity (reg(unat s - 1 := Some e')) s = Some e'"
  by (auto simp add: ur_get_entity_def split: if_splits)

lemma get_entity_upd_other:
  assumes "ur_get_entity reg s = Some e" and "t \<noteq> s"
  shows "ur_get_entity (reg(unat s - 1 := Some e')) t = ur_get_entity reg t"
proof (cases "t = 0 \<or> unat t > UR_CFG_MAX_ENTITIES")
  case True
  then show ?thesis by (auto simp add: ur_get_entity_def)
next
  case False
  from assms(1) have s: "s \<noteq> 0" by (auto simp add: ur_get_entity_def split: if_splits)
  from False have t: "t \<noteq> 0" by auto
  have "unat t - 1 \<noteq> unat s - 1"
  proof
    assume eq: "unat t - 1 = unat s - 1"
    from s t have "unat s \<noteq> 0" "unat t \<noteq> 0" by (simp_all add: unat_eq_0)
    with eq have "unat t = unat s" by arith
    with assms(2) show False by (simp add: word_unat_eq_iff)
  qed
  with False show ?thesis by (simp add: ur_get_entity_def)
qed


lemma has_free_slot_upd_other:
  assumes "ur_get_entity reg s = Some e" and "t \<noteq> s"
  shows "has_free_slot (reg(unat s - 1 := Some e')) t = has_free_slot reg t"
  unfolding has_free_slot_def by (simp only: get_entity_upd_other [OF assms])

lemma emit_cases:
  "ur_emit now e sig =
     (if length (inbox e) < UR_CFG_INBOX_SIZE
      then (UR_OK, e\<lparr>inbox := inbox e @
              [if sig_timestamp sig = 0 then sig\<lparr>sig_timestamp := now\<rparr> else sig]\<rparr>)
      else (UR_ERR_QUEUE_FULL, e))"
  by (simp add: ur_emit_def Let_def)

lemma publish_loop_spec:
  assumes "distinct ss"
    and "\<forall>s\<in>set ss. ur_get_entity reg s \<noteq> None"
    and "publish_loop clock sig i ss (reg, stats, d) = (reg', stats', d')"
  shows "d' = d + length (filter (has_free_slot reg) ss) \<and>
     delivery_count stats' = delivery_count stats + of_nat (length (filter (has_free_slot reg) ss)) \<and>
     drop_count stats' = drop_count stats + of_nat (length (filter (\<lambda>s. \<not> has_free_slot reg s) ss)) \<and>
     publish_count stats' = publish_count stats \<and>
     no_subscriber_count stats' = no_subscriber_count stats \<and>
     (\<forall>t. t \<notin> set ss \<longrightarrow> ur_get_entity reg' t = ur_get_entity reg t) \<and>
     (\<forall>pre s post. ss = pre @ s # post \<longrightarrow>
        ur_get_entity reg' s =
          map_option (\<lambda>e. snd (ur_emit (clock (i + length pre)) e sig)) (ur_get_entity reg s))"
  using assms
proof (induction ss arbitrary: i reg stats d)
  case Nil
  then show ?case by simp
next
  case (Cons s ss)
  from Cons.prems(2) obtain e where e: "ur_get_entity reg s = Some e" by auto
  from Cons.prems(1) have ns: "s \<notin> set ss" and dist: "distinct ss" by simp_all
  show ?case
  proof (cases "length (inbox e) < UR_CFG_INBOX_SIZE")
    case True
    define e' where "e' = snd (ur_emit (clock i) e sig)"
    define reg1 where "reg1 = reg(unat s - 1 := Some e')"
    define stats1 where "stats1 = stats\<lparr>delivery_count := delivery_count stats + 1\<rparr>"
    have em: "ur_emit (clock i) e sig = (UR_OK, e')"
      using True by (simp add: e'_def emit_cases)
    have free: "has_free_slot reg s" using e True by (simp add: has_free_slot_def)
    have other: "\<And>t. t \<noteq> s \<Longrightarrow> ur_get_entity reg1 t = ur_get_entity reg t"
      unfolding reg1_def by (rule get_entity_upd_other [OF e])
    have same: "ur_get_entity reg1 s = Some e'"
      unfolding reg1_def by (rule get_entity_upd_same [OF e])
    have all1: "\<forall>t\<in>set ss. ur_get_entity reg1 t \<noteq> None"
    proof
      fix t assume t: "t \<in> set ss"
      with ns have "t \<noteq> s" by auto
      with other [of t] Cons.prems(2) t show "ur_get_entity reg1 t \<noteq> None" by simp
    qed
    have loop: "publish_loop clock sig (Suc i) ss (reg1, stats1, Suc d) = (reg', stats', d')"
      using Cons.prems(3) e em by (simp add: reg1_def stats1_def)
    note ih = Cons.IH [OF dist all1 loop]
    have hf: "\<And>t. t \<in> set ss \<Longrightarrow> has_free_slot reg1 t = has_free_slot reg t"
    proof -
      fix t assume "t \<in> set ss"
      with ns have "t \<noteq> s" by auto
      then show "has_free_slot reg1 t = has_free_slot reg t"
        by (simp add: has_free_slot_def other)
    qed
    have fe: "filter (has_free_slot reg1) ss = filter (has_free_slot reg) ss"
      by (rule filter_cong [OF refl]) (rule hf)
    have fe': "filter (\<lambda>s. \<not> has_free_slot reg1 s) ss = filter (\<lambda>s. \<not> has_free_slot reg s) ss"
      by (rule filter_cong [OF refl]) (simp add: hf)
    have c1: "d' = d + length (filter (has_free_slot reg) (s # ss))"
      using ih free fe by simp
    have c2: "delivery_count stats' =
        delivery_count stats + of_nat (length (filter (has_free_slot reg) (s # ss)))"
      using ih free fe by (simp add: stats1_def)
    have c3: "drop_count stats' =
        drop_count stats + of_nat (length (filter (\<lambda>s. \<not> has_free_slot reg s) (s # ss)))"
      using ih free fe' by (simp add: stats1_def)
    have c4: "publish_count stats' = publish_count stats"
      "no_subscriber_count stats' = no_subscriber_count stats"
      using ih by (simp_all add: stats1_def)
    have c5: "\<forall>t. t \<notin> set (s # ss) \<longrightarrow> ur_get_entity reg' t = ur_get_entity reg t"
      using ih other by auto
    have c6: "\<forall>pre x post. s # ss = pre @ x # post \<longrightarrow>
        ur_get_entity reg' x =
          map_option (\<lambda>e. snd (ur_emit (clock (i + length pre)) e sig)) (ur_get_entity reg x)"
    proof (intro allI impI)
      fix pre x post assume dec: "s # ss = pre @ x # post"
      show "ur_get_entity reg' x =
          map_option (\<lambda>e. snd (ur_emit (clock (i + length pre)) e sig)) (ur_get_entity reg x)"
      proof (cases pre)
        case Nil
        with dec have xs: "x = s" by simp
        from ih have "\<forall>t. t \<notin> set ss \<longrightarrow> ur_get_entity reg' t = ur_get_entity reg1 t" by blast
        with ns have "ur_get_entity reg' s = ur_get_entity reg1 s" by blast
        with xs same e Nil show ?thesis by (simp add: e'_def)
      next
        case (Cons p pre')
        with dec have d2: "ss = pre' @ x # post" by simp
        then have "x \<in> set ss" by simp
        with ns have xs: "x \<noteq> s" by auto
        from ih have "\<forall>pre s post. ss = pre @ s # post \<longrightarrow>
            ur_get_entity reg' s =
              map_option (\<lambda>e. snd (ur_emit (clock (Suc i + length pre)) e sig)) (ur_get_entity reg1 s)"
          by blast
        with d2 have "ur_get_entity reg' x =
              map_option (\<lambda>e. snd (ur_emit (clock (Suc i + length pre')) e sig)) (ur_get_entity reg1 x)"
          by blast
        with other [OF xs] Cons show ?thesis by simp
      qed
    qed
    from c1 c2 c3 c4 c5 c6 show ?thesis by blast
  next
    case False
    define stats1 where "stats1 = stats\<lparr>drop_count := drop_count stats + 1\<rparr>"
    have em: "ur_emit (clock i) e sig = (UR_ERR_QUEUE_FULL, e)"
      using False by (simp add: emit_cases)
    have full: "\<not> has_free_slot reg s" using e False by (simp add: has_free_slot_def)
    have all1: "\<forall>t\<in>set ss. ur_get_entity reg t \<noteq> None"
      using Cons.prems(2) by auto
    have loop: "publish_loop clock sig (Suc i) ss (reg, stats1, d) = (reg', stats', d')"
      using Cons.prems(3) e em by (simp add: stats1_def)
    note ih = Cons.IH [OF dist all1 loop]
    have c1: "d' = d + length (filter (has_free_slot reg) (s # ss))"
      using ih full by simp
    have c2: "delivery_count stats' =
        delivery_count stats + of_nat (length (filter (has_free_slot reg) (s # ss)))"
      using ih full by (simp add: stats1_def)
    have c3: "drop_count stats' =
        drop_count stats + of_nat (length (filter (\<lambda>s. \<not> has_free_slot reg s) (s # ss)))"
      using ih full by (simp add: stats1_def)
    have c4: "publish_count stats' = publish_count stats"
      "no_subscriber_count stats' = no_subscriber_count stats"
      using ih by (simp_all add: stats1_def)
    have c5: "\<forall>t. t \<notin> set (s # ss) \<longrightarrow> ur_get_entity reg' t = ur_get_entity reg t"
      using ih by auto
    have c6: "\<forall>pre x post. s # ss = pre @ x # post \<longrightarrow>
        ur_get_entity reg' x =
          map_option (\<lambda>e. snd (ur_emit (clock (i + length pre)) e sig)) (ur_get_entity reg x)"
    proof (intro allI impI)
      fix pre x post assume dec: "s # ss = pre @ x # post"
      show "ur_get_entity reg' x =
          map_option (\<lambda>e. snd (ur_emit (clock (i + length pre)) e sig)) (ur_get_entity reg x)"
      proof (cases pre)
        case Nil
        with dec have xs: "x = s" by simp
        from ih have "\<forall>t. t \<notin> set ss \<longrightarrow> ur_get_entity reg' t = ur_get_entity reg t" by blast
        with ns have "ur_get_entity reg' s = ur_get_entity reg s" by blast
        with xs e em Nil show ?thesis by simp
      next
        case (Cons p pre')
        with dec have d2: "ss = pre' @ x # post" by simp
        from ih have "\<forall>pre s post. ss = pre @ s # post \<longrightarrow>
            ur_get_entity reg' s =
              map_option (\<lambda>e. snd (ur_emit (clock (Suc i + length pre)) e sig)) (ur_get_entity reg s)"
          by blast
        with d2 have "ur_get_entity reg' x =
              map_option (\<lambda>e. snd (ur_emit (clock (Suc i + length pre')) e sig)) (ur_get_entity reg x)"
          by blast
        with Cons show ?thesis by simp
      qed
    qed
    from c1 c2 c3 c4 c5 c6 show ?thesis by blast
  qed
qed

lemma add_subscriber_distinct:
  "\<forall>t\<in>set ts. distinct (subscribers t) \<Longrightarrow> add_subscriber ts tid eid = (err, ts') \<Longrightarrow>
     \<forall>t\<in>set ts'. distinct (subscribers t)"
  by (induction ts arbitrary: err ts') (auto split: if_splits prod.splits)

lemma subscribe_distinct:
  assumes "\<forall>t\<in>set (topics g). distinct (subscribers t)" and "bus_initialized g"
    and "ur_subscribe g eid tid = (err, g')"
  shows "\<forall>t\<in>set (topics g'). distinct (subscribers t)"
proof (cases "find_topic g tid")
  case None
  with assms show ?thesis
    by (auto simp add: ur_subscribe_def Let_def split: if_splits)
next
  case (Some t)
  obtain e ts where a: "add_subscriber (topics g) tid eid = (e, ts)"
    by (cases "add_subscriber (topics g) tid eid") auto
  with Some assms(2,3) have "topics g' = ts"
    by (auto simp add: ur_subscribe_def Let_def)
  with add_subscriber_distinct [OF assms(1) a] show ?thesis by simp
qed

text \<open>
  C5 (as stated). The claim: every delivered copy carries the publish call's own signal
  unchanged. \<^verbatim>\<open>ur_publish\<close> hands its signal to \<^verbatim>\<open>ur_emit\<close>, and \<^verbatim>\<open>ur_emit\<close> stamps a
  signal whose timestamp is 0 with the current time before it enqueues it. Two
  subscribers with empty inboxes, the signal of scenario 3 (timestamp 0, as
  \<^verbatim>\<open>UR_SIGNAL_U32\<close> and \<^verbatim>\<open>ur_publish_u32\<close> build it), clock at 1234: the call returns
  2 and both inboxes hold a copy whose timestamp is 1234, not the signal published.
\<close>

theorem publish_copy_unchanged_counterexample:
  "fst (ur_publish ex_clock ex_battery_sig (ex_registry, ex_bus)) = 2 \<and>
   map_option inbox
     (ur_get_entity (fst (snd (ur_publish ex_clock ex_battery_sig (ex_registry, ex_bus)))) 1) =
     Some [ex_battery_sig\<lparr>sig_timestamp := 1234\<rparr>] \<and>
   map_option inbox
     (ur_get_entity (fst (snd (ur_publish ex_clock ex_battery_sig (ex_registry, ex_bus)))) 2) =
     Some [ex_battery_sig\<lparr>sig_timestamp := 1234\<rparr>] \<and>
   ex_battery_sig\<lparr>sig_timestamp := 1234\<rparr> \<noteq> ex_battery_sig"
  by code_simp

text \<open>
  C5 (amended). For an initialised bus, a topic whose subscriber ids are distinct (as
  \<^verbatim>\<open>ur_subscribe\<close> keeps them) and all registered in the entity registry:
  \<^verbatim>\<open>ur_publish\<close> returns the number of subscribers whose inbox has a free slot, which
  is the number of subscribers \<open>k\<close> when all have one; the inbox of each such subscriber
  grows by one signal, which is the published signal with its id, source id, payload and
  pointer as they are and with its timestamp replaced by the clock reading when it was
  0; a subscriber whose inbox is full keeps its inbox, and the drop counter grows by the
  number of such subscribers; the delivery counter grows by the number returned; every
  subscriber is served whatever happened to those before it, and no other entity changes.
\<close>

theorem publish_fan_out:
  assumes "bus_initialized g"
    and "find_topic g (sig_id sig) = Some topic"
    and "distinct (subscribers topic)"
    and "\<forall>s\<in>set (subscribers topic). ur_get_entity reg s \<noteq> None"
    and "ur_publish clock sig (reg, g) = (delivered, reg', g')"
  shows "delivered = length (filter (has_free_slot reg) (subscribers topic)) \<and>
     ((\<forall>s\<in>set (subscribers topic). has_free_slot reg s) \<longrightarrow>
        delivered = length (subscribers topic)) \<and>
     (\<forall>i e. i < length (subscribers topic) \<and>
            ur_get_entity reg (subscribers topic ! i) = Some e \<longrightarrow>
            ur_get_entity reg' (subscribers topic ! i) =
              Some (if length (inbox e) < UR_CFG_INBOX_SIZE
                    then e\<lparr>inbox := inbox e @
                           [if sig_timestamp sig = 0 then sig\<lparr>sig_timestamp := clock i\<rparr> else sig]\<rparr>
                    else e)) \<and>
     drop_count (bus_stats g') =
       drop_count (bus_stats g) +
       of_nat (length (filter (\<lambda>s. \<not> has_free_slot reg s) (subscribers topic))) \<and>
     delivery_count (bus_stats g') = delivery_count (bus_stats g) + of_nat delivered \<and>
     (\<forall>t. t \<notin> set (subscribers topic) \<longrightarrow> ur_get_entity reg' t = ur_get_entity reg t)"
proof -
  let ?ss = "subscribers topic"
  define g2 where "g2 = g\<lparr>bus_stats := (bus_stats g)\<lparr>publish_count := publish_count (bus_stats g) + 1\<rparr>\<rparr>"
  have ft: "find_topic g2 (sig_id sig) = Some topic"
    using assms(2) by (simp add: g2_def find_topic_def)
  show ?thesis
  proof (cases "?ss = []")
    case True
    with assms(1,5) ft have "delivered = 0" "reg' = reg"
      "bus_stats g' = (bus_stats g2)\<lparr>no_subscriber_count := no_subscriber_count (bus_stats g2) + 1\<rparr>"
      by (auto simp add: ur_publish_def Let_def g2_def)
    with True show ?thesis by (simp add: g2_def)
  next
    case False
    obtain r1 s1 d1 where l: "publish_loop clock sig 0 ?ss (reg, bus_stats g2, 0) = (r1, s1, d1)"
      by (cases "publish_loop clock sig 0 ?ss (reg, bus_stats g2, 0)") auto
    with False assms(1,5) ft have res: "delivered = d1" "reg' = r1" "bus_stats g' = s1"
      by (auto simp add: ur_publish_def Let_def g2_def)
    note sp = publish_loop_spec [OF assms(3) assms(4) l]
    have c1: "delivered = length (filter (has_free_slot reg) ?ss)"
      using sp res by simp
    have c2: "(\<forall>s\<in>set ?ss. has_free_slot reg s) \<longrightarrow> delivered = length ?ss"
      using c1 by simp
    have c3: "\<forall>i e. i < length ?ss \<and> ur_get_entity reg (?ss ! i) = Some e \<longrightarrow>
            ur_get_entity reg' (?ss ! i) =
              Some (if length (inbox e) < UR_CFG_INBOX_SIZE
                    then e\<lparr>inbox := inbox e @
                           [if sig_timestamp sig = 0 then sig\<lparr>sig_timestamp := clock i\<rparr> else sig]\<rparr>
                    else e)"
    proof (intro allI impI)
      fix i e assume a: "i < length ?ss \<and> ur_get_entity reg (?ss ! i) = Some e"
      then have dec: "?ss = take i ?ss @ (?ss ! i) # drop (Suc i) ?ss"
        by (simp add: id_take_nth_drop)
      from sp have "\<forall>pre s post. ?ss = pre @ s # post \<longrightarrow>
        ur_get_entity r1 s =
          map_option (\<lambda>e. snd (ur_emit (clock (0 + length pre)) e sig)) (ur_get_entity reg s)"
        by blast
      with dec have "ur_get_entity r1 (?ss ! i) =
          map_option (\<lambda>e. snd (ur_emit (clock (0 + length (take i ?ss))) e sig))
            (ur_get_entity reg (?ss ! i))"
        by blast
      with a res show "ur_get_entity reg' (?ss ! i) =
              Some (if length (inbox e) < UR_CFG_INBOX_SIZE
                    then e\<lparr>inbox := inbox e @
                           [if sig_timestamp sig = 0 then sig\<lparr>sig_timestamp := clock i\<rparr> else sig]\<rparr>
                    else e)"
        by (simp add: emit_cases min_def)
    qed
    have c4: "drop_count (bus_stats g') =
       drop_count (bus_stats g) + of_nat (length (filter (\<lambda>s. \<not> has_free_slot reg s) ?ss))"
      using sp res by (simp add: g2_def)
    have c5: "delivery_count (bus_stats g') = delivery_count (bus_stats g) + of_nat delivered"
      using sp res by (simp add: g2_def)
    have c6: "\<forall>t. t \<notin> set ?ss \<longrightarrow> ur_get_entity reg' t = ur_get_entity reg t"
      using sp res by simp
    from c1 c2 c3 c4 c5 c6 show ?thesis by (intro conjI)
  qed
qed

theorem publish_fan_out_witness:
  "fst (ur_publish ex_clock ex_battery_sig (ex_registry_full, ex_bus)) = 1 \<and>
   map_option inbox
     (ur_get_entity (fst (snd (ur_publish ex_clock ex_battery_sig (ex_registry_full, ex_bus)))) 1) =
     Some [ex_battery_sig\<lparr>sig_timestamp := 1234\<rparr>] \<and>
   map_option inbox
     (ur_get_entity (fst (snd (ur_publish ex_clock ex_battery_sig (ex_registry_full, ex_bus)))) 2) =
     Some (replicate 8 (ex_signal 0x0100)) \<and>
   drop_count (bus_stats (snd (snd (ur_publish ex_clock ex_battery_sig (ex_registry_full, ex_bus))))) = 1"
proof -
  let ?topic = "\<lparr>topic_id = 0x0130, subscribers = [1, 2]\<rparr>"
  obtain d r g' where p: "ur_publish ex_clock ex_battery_sig (ex_registry_full, ex_bus) = (d, r, g')"
    by (cases "ur_publish ex_clock ex_battery_sig (ex_registry_full, ex_bus)") auto
  have h: "bus_initialized ex_bus"
    "find_topic ex_bus (sig_id ex_battery_sig) = Some ?topic"
    "distinct (subscribers ?topic)"
    "\<forall>s\<in>set (subscribers ?topic). ur_get_entity ex_registry_full s \<noteq> None"
    by code_simp+
  note t = publish_fan_out [OF h p]
  have e: "ur_get_entity ex_registry_full (subscribers ?topic ! 0) = Some (ex_entity ex_button_states 1 [])"
    "ur_get_entity ex_registry_full (subscribers ?topic ! 1) =
       Some ((ex_entity ex_button_states 1 (replicate 8 (ex_signal 0x0100)))\<lparr>ent_id := 2\<rparr>)"
    "length (filter (has_free_slot ex_registry_full) (subscribers ?topic)) = 1"
    "length (filter (\<lambda>s. \<not> has_free_slot ex_registry_full s) (subscribers ?topic)) = 1"
    "drop_count (bus_stats ex_bus) = 0"
    by code_simp+
  from t have t3: "\<forall>i e. i < length (subscribers ?topic) \<and>
            ur_get_entity ex_registry_full (subscribers ?topic ! i) = Some e \<longrightarrow>
            ur_get_entity r (subscribers ?topic ! i) =
              Some (if length (inbox e) < UR_CFG_INBOX_SIZE
                    then e\<lparr>inbox := inbox e @
                           [if sig_timestamp ex_battery_sig = 0
                            then ex_battery_sig\<lparr>sig_timestamp := ex_clock i\<rparr> else ex_battery_sig]\<rparr>
                    else e)"
    by blast
  have a: "ur_get_entity r 1 =
      Some ((ex_entity ex_button_states 1 [])\<lparr>inbox := [ex_battery_sig\<lparr>sig_timestamp := 1234\<rparr>]\<rparr>)"
    using t3 [rule_format, of 0, OF conjI [OF _ e(1)]]
    by (simp add: ex_entity_def ex_battery_sig_def ex_clock_def UR_CFG_INBOX_SIZE_def)
  have b: "ur_get_entity r 2 =
      Some ((ex_entity ex_button_states 1 (replicate 8 (ex_signal 0x0100)))\<lparr>ent_id := 2\<rparr>)"
    using t3 [rule_format, of 1, OF conjI [OF _ e(2)]]
    by (simp add: ex_entity_def UR_CFG_INBOX_SIZE_def)
  from t e have c: "d = 1" "drop_count (bus_stats g') = 1" by simp_all
  show ?thesis
    using a b c p by (simp add: ex_entity_def)
qed

section \<open>Signal codec: results\<close>

lemma f8: "(f ^^ 8) x = f (f (f (f (f (f (f (f x)))))))"
  by (simp add: eval_nat_numeral)

lemma byte_shift: "crc_ccitt_byte 0 b = (crc_ccitt_shift ^^ 8) (push_bit 8 (ucast b))"
  by (simp add: crc_ccitt_byte_def)

lemma crc_table_is_ccitt: "table_from 0 crc16_table"
  unfolding crc16_table_def
  by (simp add: byte_shift f8 crc_ccitt_shift_def)

lemma table_from_nth:
  "table_from b xs \<Longrightarrow> i < length xs \<Longrightarrow> xs ! i = crc_ccitt_byte 0 (b + of_nat i)"
proof (induction xs arbitrary: b i)
  case Nil
  then show ?case by simp
next
  case (Cons x xs)
  show ?case
  proof (cases i)
    case 0
    with Cons.prems show ?thesis by simp
  next
    case (Suc k)
    with Cons.prems have "xs ! k = crc_ccitt_byte 0 (b + 1 + of_nat k)"
      by (intro Cons.IH) simp_all
    with Suc show ?thesis by (simp add: ac_simps)
  qed
qed

lemma table_nth: "crc16_table ! unat (b :: 8 word) = crc_ccitt_byte 0 b"
proof -
  have "length crc16_table = 256"
    by (simp add: crc16_table_def)
  with unsigned_less [of b] have "unat b < length crc16_table"
    by simp
  from table_from_nth [OF crc_table_is_ccitt this] show ?thesis
    by simp
qed

lemma shift_xor: "crc_ccitt_shift (u XOR v) = crc_ccitt_shift u XOR crc_ccitt_shift v"
  by (cases "bit u 15"; cases "bit v 15")
     (simp_all add: crc_ccitt_shift_def bit_xor_iff push_bit_xor ac_simps)

lemma shift_pow_xor: "(crc_ccitt_shift ^^ n) (u XOR v) = (crc_ccitt_shift ^^ n) u XOR (crc_ccitt_shift ^^ n) v"
  by (induction n) (simp_all add: shift_xor)

lemma shift_low:
  assumes "k < 8"
  shows "crc_ccitt_shift (push_bit k (x AND mask 8)) = push_bit (Suc k) (x AND mask 8)"
proof -
  have "\<not> bit (push_bit k (x AND mask 8)) 15"
    using assms by (auto simp add: bit_simps)
  then show ?thesis
    by (simp add: crc_ccitt_shift_def push_bit_push_bit)
qed

lemma shift_pow_low_n:
  "n \<le> 8 \<Longrightarrow> (crc_ccitt_shift ^^ n) (x AND mask 8) = push_bit n (x AND mask 8)"
proof (induction n)
  case 0
  show ?case by simp
next
  case (Suc n)
  then have "(crc_ccitt_shift ^^ n) (x AND mask 8) = push_bit n (x AND mask 8)" and "n < 8"
    by simp_all
  then show ?case by (simp only: funpow.simps o_apply shift_low)
qed

lemma shift_pow_low: "(crc_ccitt_shift ^^ 8) (x AND mask 8) = push_bit 8 x"
proof -
  have "(crc_ccitt_shift ^^ 8) (x AND mask 8) = push_bit 8 (x AND mask 8)"
    by (rule shift_pow_low_n) simp
  also have "\<dots> = push_bit 8 x"
    by (rule bit_word_eqI) (auto simp add: bit_simps)
  finally show ?thesis .
qed

lemma ff_mask: "(0xFF :: 16 word) = mask 8"
  by (simp add: mask_eq_exp_minus_1)

lemma split_register:
  fixes crc :: "16 word" and byte :: "8 word"
  shows "crc XOR push_bit 8 (ucast byte) =
         push_bit 8 (ucast (ucast ((drop_bit 8 crc XOR ucast byte) AND 0xFF) :: 8 word)) XOR (crc AND mask 8)"
  unfolding ff_mask
  by (rule bit_word_eqI) (auto simp add: bit_simps)

lemma index_byte:
  fixes w :: "16 word"
  shows "unat (w AND 0xFF) = unat (ucast (w AND 0xFF) :: 8 word)"
proof -
  have "w AND 0xFF \<le> 0xFF" by (rule word_and_le1)
  then have "unat (w AND 0xFF) < 2 ^ 8" by (simp add: word_le_nat_alt)
  then show ?thesis
    by (simp add: unsigned_ucast_eq take_bit_nat_eq_self)
qed

lemma crc16_step_ccitt: "crc16_step crc byte = crc_ccitt_byte crc byte"
proof -
  let ?h = "ucast ((drop_bit 8 crc XOR ucast byte) AND 0xFF) :: 8 word"
  have "crc_ccitt_byte crc byte =
      (crc_ccitt_shift ^^ 8) (push_bit 8 (ucast ?h) XOR (crc AND mask 8))"
    by (simp only: crc_ccitt_byte_def split_register)
  also have "\<dots> = (crc_ccitt_shift ^^ 8) (push_bit 8 (ucast ?h)) XOR push_bit 8 crc"
    by (simp only: shift_pow_xor shift_pow_low)
  also have "(crc_ccitt_shift ^^ 8) (push_bit 8 (ucast ?h)) = crc16_table ! unat ?h"
    by (simp only: table_nth byte_shift)
  also have "unat ?h = unat ((drop_bit 8 crc XOR ucast byte) AND 0xFF)"
    by (simp only: index_byte [symmetric])
  finally show ?thesis
    by (simp add: crc16_step_def xor.commute)
qed

lemma ur_crc16_is_ccitt: "ur_crc16 data = crc_ccitt data"
proof -
  have "crc16_step = crc_ccitt_byte"
    by (intro ext) (rule crc16_step_ccitt)
  then show ?thesis by (simp add: ur_crc16_def crc_ccitt_def)
qed

lemma le16_split: "le16 (ucast (x AND 0xFF)) (ucast (drop_bit 8 x AND 0xFF)) = (x :: 16 word)"
  unfolding le16_def ff_mask
  by (rule bit_word_eqI) (auto simp add: bit_simps)

lemma le16_small:
  assumes "n < 256"
  shows "unat (le16 (of_nat (n mod 256)) (of_nat ((n div 256) mod 256))) = n"
proof -
  from assms have "le16 (of_nat (n mod 256)) (of_nat ((n div 256) mod 256)) = ucast (of_nat n :: 8 word)"
    by (simp add: le16_def)
  moreover have "unat (ucast (of_nat n :: 8 word) :: 16 word) = n"
    using assms by (simp add: unsigned_ucast_eq unsigned_of_nat take_bit_nat_eq_self)
  ultimately show ?thesis by simp
qed

lemma take_prefix: "length xs = k \<Longrightarrow> take (k + n) (xs @ ys) = xs @ take n ys"
  by simp

lemma nth_prefix: "length xs = k \<Longrightarrow> (xs @ ys) ! (k + n) = ys ! n"
  by (simp add: nth_append)

text \<open>The frame as a list: header, payload field, CRC.\<close>

lemma decode_frame:
  assumes "length pl = n" and "n < 256"
    and "crc = ur_crc16 ([l0, l1, i0, i1, s0, s1] @ pl)"
    and "unat (le16 l0 l1) = n"
  shows "ur_codec_decode_binary
           ([UR_CODEC_SYNC_BYTE, l0, l1, i0, i1, s0, s1] @ pl @
            [ucast (crc AND 0xFF), ucast (drop_bit 8 crc AND 0xFF)]) =
         (UR_OK,
          \<lparr>dec_signal =
             \<lparr>sig_id = le16 i0 i1, sig_src_id = le16 s0 s1,
              sig_payload = take (min n UR_CFG_SIGNAL_PAYLOAD_SIZE) pl @
                            replicate (UR_CFG_SIGNAL_PAYLOAD_SIZE - min n UR_CFG_SIGNAL_PAYLOAD_SIZE) 0,
              sig_ptr = 0, sig_timestamp = 0\<rparr>,
           dec_consumed = 9 + n, dec_complete = True\<rparr>)"
proof -
  define tail where "tail = [ucast (crc AND 0xFF), ucast (drop_bit 8 crc AND 0xFF) :: 8 word]"
  define frame where "frame = [UR_CODEC_SYNC_BYTE, l0, l1, i0, i1, s0, s1] @ pl @ tail"
  have len: "length frame = 9 + n" using assms(1) by (simp add: frame_def tail_def)
  have sync: "find_sync frame = 0" by (simp add: frame_def)
  have n1: "frame ! 1 = l0" "frame ! 2 = l1" "frame ! 3 = i0" "frame ! 4 = i1"
    "frame ! 5 = s0" "frame ! 6 = s1"
    by (simp_all add: frame_def)
  have "frame ! (7 + n) = (pl @ tail) ! n"
    unfolding frame_def by (rule nth_prefix) simp
  then have c0: "frame ! (7 + n) = ucast (crc AND 0xFF)"
    using assms(1) by (simp add: nth_append tail_def)
  have "frame ! (7 + Suc n) = (pl @ tail) ! Suc n"
    unfolding frame_def by (rule nth_prefix) simp
  then have c1: "frame ! (8 + n) = ucast (drop_bit 8 crc AND 0xFF)"
    using assms(1) by (simp add: nth_append tail_def)
  have "take (6 + n) ([l0, l1, i0, i1, s0, s1] @ pl @ tail) =
        [l0, l1, i0, i1, s0, s1] @ take n (pl @ tail)"
    by (rule take_prefix) simp
  then have body: "take (6 + n) (drop 1 frame) = [l0, l1, i0, i1, s0, s1] @ pl"
    using assms(1) by (simp add: frame_def)
  have pay: "take (min n UR_CFG_SIGNAL_PAYLOAD_SIZE) (drop 7 frame) =
      take (min n UR_CFG_SIGNAL_PAYLOAD_SIZE) pl"
    using assms(1) by (simp add: frame_def)
  have crc_ok: "le16 (frame ! (7 + n)) (frame ! (8 + n)) = ur_crc16 (take (6 + n) (drop 1 frame))"
    by (simp only: c0 c1 body le16_split assms(3))
  have t: "7 + n + 2 - 2 = 7 + n" "7 + n + 2 - 1 = 8 + n" "7 + n + 2 - 3 = 6 + n" "7 + n + 2 = 9 + n"
    by simp_all
  have "ur_codec_decode_binary frame =
         (UR_OK,
          \<lparr>dec_signal =
             \<lparr>sig_id = le16 i0 i1, sig_src_id = le16 s0 s1,
              sig_payload = take (min n UR_CFG_SIGNAL_PAYLOAD_SIZE) pl @
                            replicate (UR_CFG_SIGNAL_PAYLOAD_SIZE - min n UR_CFG_SIGNAL_PAYLOAD_SIZE) 0,
              sig_ptr = 0, sig_timestamp = 0\<rparr>,
           dec_consumed = 9 + n, dec_complete = True\<rparr>)"
    unfolding ur_codec_decode_binary_def Let_def UR_CODEC_HEADER_SIZE_def UR_CODEC_CRC_SIZE_def
    apply (simp only: len sync drop_0 n1 assms(4) t pay)
    using crc_ok apply (simp add: zero_result_def zero_signal_def)
    done
  then show ?thesis by (simp only: frame_def tail_def)
qed


lemma drop_prefix: "length xs = k \<Longrightarrow> drop (k + n) (xs @ ys) = drop n ys"
  by simp

lemma encode_frame:
  assumes "length (sig_payload sig) = UR_CFG_SIGNAL_PAYLOAD_SIZE"
    and "n = (case ur_codec_get_schema g (sig_id sig) of
                None \<Rightarrow> UR_CFG_SIGNAL_PAYLOAD_SIZE
              | Some schema \<Rightarrow> unat (schema_payload_size schema))"
    and "9 + n \<le> length buffer"
    and "hdr = [of_nat (n mod 256), of_nat ((n div 256) mod 256),
                ucast (sig_id sig AND 0xFF), ucast (drop_bit 8 (sig_id sig) AND 0xFF),
                ucast (sig_src_id sig AND 0xFF), ucast (drop_bit 8 (sig_src_id sig) AND 0xFF)]"
    and "pl = take (min n UR_CFG_SIGNAL_PAYLOAD_SIZE) (sig_payload sig) @
              take (n - min n UR_CFG_SIGNAL_PAYLOAD_SIZE)
                (drop (7 + min n UR_CFG_SIGNAL_PAYLOAD_SIZE) buffer)"
    and "crc = ur_crc16 (hdr @ pl)"
  shows "ur_codec_encode_binary g sig buffer =
           (UR_OK,
            (UR_CODEC_SYNC_BYTE # hdr) @ pl @ [ucast (crc AND 0xFF), ucast (drop_bit 8 crc AND 0xFF)] @
              drop (9 + n) buffer,
            9 + n)"
    and "length pl = n"
proof -
  define m where "m = min n UR_CFG_SIGNAL_PAYLOAD_SIZE"
  define p4 where "p4 = take m (sig_payload sig)"
  define h7 where "h7 = UR_CODEC_SYNC_BYTE # hdr"
  have lh: "length h7 = 7" "length hdr = 6" by (simp_all add: h7_def assms(4))
  have lp4: "length p4 = m" using assms(1) by (simp add: p4_def m_def)
  have mn: "m \<le> n" by (simp add: m_def)
  have lrest: "length (take (n - m) (drop (7 + m) buffer)) = n - m"
    using assms(3) mn by simp
  have pl: "pl = p4 @ take (n - m) (drop (7 + m) buffer)"
    by (simp add: assms(5) p4_def m_def)
  show lpl: "length pl = n"
    using lp4 lrest mn by (simp add: pl)
  have b1: "write_bytes buffer 0 h7 = h7 @ drop 7 buffer"
    by (simp add: write_bytes_def lh)
  have "take 7 (h7 @ drop 7 buffer) = h7" using lh by simp
  moreover have "drop (7 + length p4) (h7 @ drop 7 buffer) = drop (length p4) (drop 7 buffer)"
    by (rule drop_prefix) (rule lh)
  ultimately have b2: "write_bytes (h7 @ drop 7 buffer) 7 p4 = h7 @ p4 @ drop (7 + m) buffer"
    by (simp add: write_bytes_def lp4 add.commute)
  have "drop 1 (h7 @ p4 @ drop (7 + m) buffer) = hdr @ p4 @ drop (7 + m) buffer"
    by (simp add: h7_def)
  moreover have "take (6 + n) (hdr @ p4 @ drop (7 + m) buffer) = hdr @ take n (p4 @ drop (7 + m) buffer)"
    by (rule take_prefix) (rule lh)
  moreover have "take n (p4 @ drop (7 + m) buffer) = pl"
    using mn lp4 by (simp add: pl)
  ultimately have crc: "ur_crc16 (take (7 + n - 1) (drop 1 (h7 @ p4 @ drop (7 + m) buffer))) = crc"
    by (simp add: assms(6))
  have whole: "h7 @ p4 @ drop (7 + m) buffer = (h7 @ pl) @ drop (7 + n) buffer"
  proof -
    have "drop (7 + m) buffer = take (n - m) (drop (7 + m) buffer) @ drop (n - m) (drop (7 + m) buffer)"
      by (simp only: append_take_drop_id)
    also have "drop (n - m) (drop (7 + m) buffer) = drop (7 + n) buffer"
      using mn by (simp add: add.commute)
    finally show ?thesis by (simp add: pl)
  qed
  have lhp: "length (h7 @ pl) = 7 + n" using lh lpl by simp
  define cb where "cb = [ucast (crc AND 0xFF), ucast (drop_bit 8 crc AND 0xFF) :: 8 word]"
  have lcb: "length cb = 2" by (simp add: cb_def)
  have t3: "take (7 + n) ((h7 @ pl) @ drop (7 + n) buffer) = h7 @ pl"
    using lhp by simp
  have "drop (7 + n + 2) ((h7 @ pl) @ drop (7 + n) buffer) = drop 2 (drop (7 + n) buffer)"
    by (rule drop_prefix) (rule lhp)
  then have d3: "drop (7 + n + length cb) ((h7 @ pl) @ drop (7 + n) buffer) = drop (9 + n) buffer"
    by (simp add: lcb add.commute)
  have "write_bytes ((h7 @ pl) @ drop (7 + n) buffer) (7 + n) cb =
      (h7 @ pl) @ cb @ drop (9 + n) buffer"
    unfolding write_bytes_def by (simp only: t3 d3)
  then have b3: "write_bytes (h7 @ p4 @ drop (7 + m) buffer) (7 + n)
        [ucast (crc AND 0xFF), ucast (drop_bit 8 crc AND 0xFF)] =
      h7 @ pl @ [ucast (crc AND 0xFF), ucast (drop_bit 8 crc AND 0xFF)] @ drop (9 + n) buffer"
    by (simp only: whole cb_def append_assoc)
  have n': "(case ur_codec_get_schema g (sig_id sig) of
                None \<Rightarrow> UR_CFG_SIGNAL_PAYLOAD_SIZE
              | Some schema \<Rightarrow> unat (schema_payload_size schema)) = n"
    by (simp add: assms(2))
  have h7': "[UR_CODEC_SYNC_BYTE, of_nat (n mod 256), of_nat ((n div 256) mod 256),
                ucast (sig_id sig AND 0xFF), ucast (drop_bit 8 (sig_id sig) AND 0xFF),
                ucast (sig_src_id sig AND 0xFF), ucast (drop_bit 8 (sig_src_id sig) AND 0xFF)] = h7"
    by (simp add: h7_def assms(4))
  have p4': "take (min n UR_CFG_SIGNAL_PAYLOAD_SIZE) (sig_payload sig) = p4"
    by (simp add: p4_def m_def)
  have sz: "\<not> length buffer < 7 + n + 2" using assms(3) by simp
  have "ur_codec_encode_binary g sig buffer =
      (UR_OK, h7 @ pl @ [ucast (crc AND 0xFF), ucast (drop_bit 8 crc AND 0xFF)] @ drop (9 + n) buffer,
       7 + n + 2)"
    unfolding ur_codec_encode_binary_def Let_def UR_CODEC_HEADER_SIZE_def UR_CODEC_CRC_SIZE_def
    by (simp only: n' h7' p4' sz if_False b1 b2 crc b3)
  then show "ur_codec_encode_binary g sig buffer =
           (UR_OK,
            (UR_CODEC_SYNC_BYTE # hdr) @ pl @ [ucast (crc AND 0xFF), ucast (drop_bit 8 crc AND 0xFF)] @
              drop (9 + n) buffer,
            9 + n)"
    by (simp add: h7_def)
qed


lemma codec_roundtrip_table_crc:
  assumes "length (sig_payload sig) = UR_CFG_SIGNAL_PAYLOAD_SIZE"
    and "w = (case ur_codec_get_schema g (sig_id sig) of
                None \<Rightarrow> UR_CFG_SIGNAL_PAYLOAD_SIZE
              | Some schema \<Rightarrow> unat (schema_payload_size schema))"
    and "ur_codec_encode_binary g sig buffer = (UR_OK, buffer', out_len)"
  shows "out_len = 7 + w + 2 \<and>
     (let crc = ur_crc16 (take (6 + w) (drop 1 buffer'))
      in take out_len buffer' =
           [0x55, of_nat (w mod 256), of_nat ((w div 256) mod 256),
            ucast (sig_id sig AND 0xFF), ucast (drop_bit 8 (sig_id sig) AND 0xFF),
            ucast (sig_src_id sig AND 0xFF), ucast (drop_bit 8 (sig_src_id sig) AND 0xFF)] @
           take w (drop 7 buffer') @
           [ucast (crc AND 0xFF), ucast (drop_bit 8 crc AND 0xFF)]) \<and>
     take (min w UR_CFG_SIGNAL_PAYLOAD_SIZE) (drop 7 buffer') =
       take (min w UR_CFG_SIGNAL_PAYLOAD_SIZE) (sig_payload sig) \<and>
     ur_codec_decode_binary (take out_len buffer') =
       (UR_OK,
        \<lparr>dec_signal =
           \<lparr>sig_id = sig_id sig, sig_src_id = sig_src_id sig,
            sig_payload = take (min w UR_CFG_SIGNAL_PAYLOAD_SIZE) (sig_payload sig) @
                          replicate (UR_CFG_SIGNAL_PAYLOAD_SIZE - min w UR_CFG_SIGNAL_PAYLOAD_SIZE) 0,
            sig_ptr = 0, sig_timestamp = 0\<rparr>,
         dec_consumed = out_len, dec_complete = True\<rparr>)"
proof -
  define hdr where "hdr = [of_nat (w mod 256), of_nat ((w div 256) mod 256),
                ucast (sig_id sig AND 0xFF), ucast (drop_bit 8 (sig_id sig) AND 0xFF),
                ucast (sig_src_id sig AND 0xFF), ucast (drop_bit 8 (sig_src_id sig) AND 0xFF) :: 8 word]"
  define pl where "pl = take (min w UR_CFG_SIGNAL_PAYLOAD_SIZE) (sig_payload sig) @
              take (w - min w UR_CFG_SIGNAL_PAYLOAD_SIZE)
                (drop (7 + min w UR_CFG_SIGNAL_PAYLOAD_SIZE) buffer)"
  define crc where "crc = ur_crc16 (hdr @ pl)"
  define cb where "cb = [ucast (crc AND 0xFF), ucast (drop_bit 8 crc AND 0xFF) :: 8 word]"
  have w256: "w < 256"
  proof (cases "ur_codec_get_schema g (sig_id sig)")
    case None
    with assms(2) show ?thesis by (simp add: UR_CFG_SIGNAL_PAYLOAD_SIZE_def)
  next
    case (Some schema)
    with assms(2) unsigned_less [of "schema_payload_size schema"] show ?thesis by simp
  qed
  have room: "9 + w \<le> length buffer"
  proof (rule ccontr)
    assume "\<not> 9 + w \<le> length buffer"
    then have "length buffer < UR_CODEC_HEADER_SIZE + w + UR_CODEC_CRC_SIZE"
      by (simp add: UR_CODEC_HEADER_SIZE_def UR_CODEC_CRC_SIZE_def)
    then have "fst (ur_codec_encode_binary g sig buffer) = UR_ERR_NO_MEMORY"
      unfolding ur_codec_encode_binary_def Let_def assms(2) [symmetric] by simp
    with assms(3) show False by simp
  qed
  note enc = encode_frame [OF assms(1) assms(2) room hdr_def pl_def crc_def]
  from enc(1) assms(3) have b': "buffer' = (UR_CODEC_SYNC_BYTE # hdr) @ pl @ cb @ drop (9 + w) buffer"
    and ol: "out_len = 9 + w"
    by (simp_all add: cb_def)
  have lpl: "length pl = w" by (rule enc(2))
  have lh: "length hdr = 6" by (simp add: hdr_def)
  have lcb: "length cb = 2" by (simp add: cb_def)
  have fr: "take out_len buffer' = (UR_CODEC_SYNC_BYTE # hdr) @ pl @ cb"
  proof -
    have "length ((UR_CODEC_SYNC_BYTE # hdr) @ pl @ cb) = out_len"
      using lpl lh lcb ol by simp
    moreover have "buffer' = ((UR_CODEC_SYNC_BYTE # hdr) @ pl @ cb) @ drop (9 + w) buffer"
      by (simp add: b')
    ultimately show ?thesis by (metis append_eq_conv_conj)
  qed
  have d7: "drop 7 buffer' = pl @ cb @ drop (9 + w) buffer"
    using lh by (simp add: b')
  have d1: "drop 1 buffer' = hdr @ pl @ cb @ drop (9 + w) buffer"
    by (simp add: b')
  have "take (6 + w) (drop 1 buffer') = hdr @ take w (pl @ cb @ drop (9 + w) buffer)"
    by (simp only: d1 take_prefix [OF lh])
  also have "take w (pl @ cb @ drop (9 + w) buffer) = pl"
    using lpl by simp
  finally have body: "take (6 + w) (drop 1 buffer') = hdr @ pl" .
  have tw: "take w (drop 7 buffer') = pl"
    using lpl by (simp add: d7)
  have c1: "out_len = 7 + w + 2" using ol by simp
  have c2: "let crc = ur_crc16 (take (6 + w) (drop 1 buffer'))
      in take out_len buffer' =
           [0x55, of_nat (w mod 256), of_nat ((w div 256) mod 256),
            ucast (sig_id sig AND 0xFF), ucast (drop_bit 8 (sig_id sig) AND 0xFF),
            ucast (sig_src_id sig AND 0xFF), ucast (drop_bit 8 (sig_src_id sig) AND 0xFF)] @
           take w (drop 7 buffer') @
           [ucast (crc AND 0xFF), ucast (drop_bit 8 crc AND 0xFF)]"
    unfolding Let_def body tw fr
    by (simp add: hdr_def cb_def crc_def UR_CODEC_SYNC_BYTE_def)
  have c3: "take (min w UR_CFG_SIGNAL_PAYLOAD_SIZE) (drop 7 buffer') =
       take (min w UR_CFG_SIGNAL_PAYLOAD_SIZE) (sig_payload sig)"
    using assms(1) by (simp add: d7 pl_def)
  have tp: "take (min w UR_CFG_SIGNAL_PAYLOAD_SIZE) pl =
       take (min w UR_CFG_SIGNAL_PAYLOAD_SIZE) (sig_payload sig)"
    using assms(1) by (simp add: pl_def)
  have dec: "ur_codec_decode_binary
           ([UR_CODEC_SYNC_BYTE, of_nat (w mod 256), of_nat ((w div 256) mod 256),
             ucast (sig_id sig AND 0xFF), ucast (drop_bit 8 (sig_id sig) AND 0xFF),
             ucast (sig_src_id sig AND 0xFF), ucast (drop_bit 8 (sig_src_id sig) AND 0xFF)] @ pl @
            [ucast (crc AND 0xFF), ucast (drop_bit 8 crc AND 0xFF)]) =
         (UR_OK,
          \<lparr>dec_signal =
             \<lparr>sig_id = le16 (ucast (sig_id sig AND 0xFF)) (ucast (drop_bit 8 (sig_id sig) AND 0xFF)),
              sig_src_id = le16 (ucast (sig_src_id sig AND 0xFF)) (ucast (drop_bit 8 (sig_src_id sig) AND 0xFF)),
              sig_payload = take (min w UR_CFG_SIGNAL_PAYLOAD_SIZE) pl @
                            replicate (UR_CFG_SIGNAL_PAYLOAD_SIZE - min w UR_CFG_SIGNAL_PAYLOAD_SIZE) 0,
              sig_ptr = 0, sig_timestamp = 0\<rparr>,
           dec_consumed = 9 + w, dec_complete = True\<rparr>)"
    by (rule decode_frame [OF lpl w256 _ le16_small [OF w256]]) (simp add: crc_def hdr_def)
  have c4: "ur_codec_decode_binary (take out_len buffer') =
       (UR_OK,
        \<lparr>dec_signal =
           \<lparr>sig_id = sig_id sig, sig_src_id = sig_src_id sig,
            sig_payload = take (min w UR_CFG_SIGNAL_PAYLOAD_SIZE) (sig_payload sig) @
                          replicate (UR_CFG_SIGNAL_PAYLOAD_SIZE - min w UR_CFG_SIGNAL_PAYLOAD_SIZE) 0,
            sig_ptr = 0, sig_timestamp = 0\<rparr>,
         dec_consumed = out_len, dec_complete = True\<rparr>)"
    unfolding fr hdr_def cb_def using dec by (simp add: le16_split tp ol)
  from c1 c2 c3 c4 show ?thesis by (intro conjI)
qed
text \<open>
  C4. For every signal (with its four payload bytes) and the payload width \<open>w\<close> that
  the encoder uses for it (the registered schema's size, else the signal's own width),
  whenever \<^verbatim>\<open>ur_codec_encode_binary\<close> succeeds, that is, whenever the frame fits the
  buffer: the frame has \<open>7 + w + 2\<close> bytes, laid out as the sync byte 0x55, the length
  \<open>w\<close>, the signal id and the source id, each in two bytes with the low byte first, \<open>w\<close>
  payload bytes, and two bytes of CRC, low byte first, where the CRC is CRC-16/CCITT
  (polynomial 0x1021, initial value 0xFFFF) of the \<open>6 + w\<close> bytes after the sync byte up to
  the end of the payload; the first \<open>min w 4\<close> payload bytes of the frame are those of the
  signal; and \<^verbatim>\<open>ur_codec_decode_binary\<close> on the frame succeeds, consumes the whole
  frame, and yields a signal with the same id, the same source id and the same first
  \<open>min w 4\<close> payload bytes.
\<close>

theorem codec_binary_roundtrip:
  assumes "length (sig_payload sig) = UR_CFG_SIGNAL_PAYLOAD_SIZE"
    and "w = (case ur_codec_get_schema g (sig_id sig) of
                None \<Rightarrow> UR_CFG_SIGNAL_PAYLOAD_SIZE
              | Some schema \<Rightarrow> unat (schema_payload_size schema))"
    and "ur_codec_encode_binary g sig buffer = (UR_OK, buffer', out_len)"
  shows "out_len = 7 + w + 2 \<and>
     (let crc = crc_ccitt (take (6 + w) (drop 1 buffer'))
      in take out_len buffer' =
           [0x55, of_nat (w mod 256), of_nat ((w div 256) mod 256),
            ucast (sig_id sig AND 0xFF), ucast (drop_bit 8 (sig_id sig) AND 0xFF),
            ucast (sig_src_id sig AND 0xFF), ucast (drop_bit 8 (sig_src_id sig) AND 0xFF)] @
           take w (drop 7 buffer') @
           [ucast (crc AND 0xFF), ucast (drop_bit 8 crc AND 0xFF)]) \<and>
     take (min w UR_CFG_SIGNAL_PAYLOAD_SIZE) (drop 7 buffer') =
       take (min w UR_CFG_SIGNAL_PAYLOAD_SIZE) (sig_payload sig) \<and>
     ur_codec_decode_binary (take out_len buffer') =
       (UR_OK,
        \<lparr>dec_signal =
           \<lparr>sig_id = sig_id sig, sig_src_id = sig_src_id sig,
            sig_payload = take (min w UR_CFG_SIGNAL_PAYLOAD_SIZE) (sig_payload sig) @
                          replicate (UR_CFG_SIGNAL_PAYLOAD_SIZE - min w UR_CFG_SIGNAL_PAYLOAD_SIZE) 0,
            sig_ptr = 0, sig_timestamp = 0\<rparr>,
         dec_consumed = out_len, dec_complete = True\<rparr>)"
  using codec_roundtrip_table_crc [OF assms] unfolding ur_crc16_is_ccitt .

lemma ex_encode:
  "ur_codec_encode_binary ex_codec ex_codec_sig (replicate 16 0) =
     (UR_OK,
      [0x55, 0x04, 0x00, 0x20, 0x01, 0x07, 0x00, 0xEF, 0xBE, 0xAD, 0xDE, 0x2F, 0xB3, 0, 0, 0], 13)"
  by code_simp

theorem codec_binary_roundtrip_witness:
  "ur_codec_encode_binary ex_codec ex_codec_sig (replicate 16 0) =
     (UR_OK,
      [0x55, 0x04, 0x00, 0x20, 0x01, 0x07, 0x00, 0xEF, 0xBE, 0xAD, 0xDE, 0x2F, 0xB3, 0, 0, 0], 13) \<and>
   ur_codec_decode_binary
     [0x55, 0x04, 0x00, 0x20, 0x01, 0x07, 0x00, 0xEF, 0xBE, 0xAD, 0xDE, 0x2F, 0xB3] =
     (UR_OK,
      \<lparr>dec_signal =
         \<lparr>sig_id = 0x0120, sig_src_id = 7, sig_payload = [0xEF, 0xBE, 0xAD, 0xDE],
          sig_ptr = 0, sig_timestamp = 0\<rparr>,
       dec_consumed = 13, dec_complete = True\<rparr>)"
proof -
  have h: "length (sig_payload ex_codec_sig) = UR_CFG_SIGNAL_PAYLOAD_SIZE"
    "4 = (case ur_codec_get_schema ex_codec (sig_id ex_codec_sig) of
            None \<Rightarrow> UR_CFG_SIGNAL_PAYLOAD_SIZE
          | Some schema \<Rightarrow> unat (schema_payload_size schema))"
    by (simp_all add: ex_codec_sig_def ex_codec_def ur_codec_get_schema_def
        UR_CFG_SIGNAL_PAYLOAD_SIZE_def)
  from codec_binary_roundtrip [OF h ex_encode]
  have "ur_codec_decode_binary
      (take 13 [0x55, 0x04, 0x00, 0x20, 0x01, 0x07, 0x00, 0xEF, 0xBE, 0xAD, 0xDE, 0x2F, 0xB3, 0, 0, 0]) =
       (UR_OK,
        \<lparr>dec_signal =
           \<lparr>sig_id = sig_id ex_codec_sig, sig_src_id = sig_src_id ex_codec_sig,
            sig_payload = take (min 4 UR_CFG_SIGNAL_PAYLOAD_SIZE) (sig_payload ex_codec_sig) @
                          replicate (UR_CFG_SIGNAL_PAYLOAD_SIZE - min 4 UR_CFG_SIGNAL_PAYLOAD_SIZE) 0,
            sig_ptr = 0, sig_timestamp = 0\<rparr>,
         dec_consumed = 13, dec_complete = True\<rparr>)"
    by blast
  then have "ur_codec_decode_binary
     [0x55, 0x04, 0x00, 0x20, 0x01, 0x07, 0x00, 0xEF, 0xBE, 0xAD, 0xDE, 0x2F, 0xB3] =
     (UR_OK,
      \<lparr>dec_signal =
         \<lparr>sig_id = 0x0120, sig_src_id = 7, sig_payload = [0xEF, 0xBE, 0xAD, 0xDE],
          sig_ptr = 0, sig_timestamp = 0\<rparr>,
       dec_consumed = 13, dec_complete = True\<rparr>)"
    by (simp add: ex_codec_sig_def UR_CFG_SIGNAL_PAYLOAD_SIZE_def)
  with ex_encode show ?thesis by (rule conjI)
qed

section \<open>Parameter store: results\<close>

lemma find_entry_SomeD:
  assumes "find_entry g pid = Some i"
  shows "i < length (p_entries g)" and "pd_id (pe_def (p_entries g ! i)) = pid"
  using assms unfolding find_entry_def by (auto simp: find_Some_iff)

lemma find_entry_cong:
  assumes "length (p_entries g') = length (p_entries g)"
    and "\<And>j. j < length (p_entries g) \<Longrightarrow> pe_def (p_entries g' ! j) = pe_def (p_entries g ! j)"
  shows "find_entry g' pid = find_entry g pid"
proof -
  have "List.find (\<lambda>i. pd_id (pe_def (p_entries g' ! i)) = pid) [0..<length (p_entries g)] =
        List.find (\<lambda>i. pd_id (pe_def (p_entries g ! i)) = pid) [0..<length (p_entries g)]"
    by (rule find_cong) (simp_all add: assms(2))
  then show ?thesis by (simp add: find_entry_def assms(1))
qed

lemma save_entry_frame:
  assumes "i < length (p_entries g)"
  shows "length (p_entries (snd (save_entry g i))) = length (p_entries g)"
    and "pe_def (p_entries (snd (save_entry g i)) ! j) = pe_def (p_entries g ! j)"
    and "pe_value (p_entries (snd (save_entry g i)) ! j) = pe_value (p_entries g ! j)"
    and "p_batch_mode (snd (save_entry g i)) = p_batch_mode g"
    and "p_storage (snd (save_entry g i)) = p_storage g"
    and "p_published (snd (save_entry g i)) = p_published g"
  using assms
  by (auto simp: save_entry_def Let_def nth_list_update split: option.splits)

lemma commit_change_frame:
  assumes "i < length (p_entries g)"
  shows "length (p_entries (param_commit_change g pid i v)) = length (p_entries g)"
    and "pe_def (p_entries (param_commit_change g pid i v) ! j) = pe_def (p_entries g ! j)"
    and "pe_value (p_entries (param_commit_change g pid i v) ! i) = v"
  using assms
  by (auto simp: param_commit_change_def notify_change_def Let_def save_entry_frame
      nth_list_update)

text \<open>
  The scalar setters compare first: once a value has been set, setting it again changes
  nothing, neither the entries nor the two logs.
\<close>

lemma param_set_scalar_idempotent:
  assumes "PARAM_SET_IMPL ty repr g pid = (UR_OK, g')"
  shows "PARAM_SET_IMPL ty repr g' pid = (UR_OK, g')"
proof (cases "find_entry g pid")
  case None
  with assms show ?thesis by (simp add: PARAM_SET_IMPL_def)
next
  case (Some i)
  note i = find_entry_SomeD(1) [OF Some]
  let ?e = "p_entries g ! i"
  show ?thesis
  proof (cases "take (length repr) (pe_value ?e) = repr")
    case True
    with assms Some have "g' = g"
      by (auto simp: PARAM_SET_IMPL_def Let_def split: if_splits)
    with assms show ?thesis by simp
  next
    case False
    let ?v = "repr @ drop (length repr) (pe_value ?e)"
    from assms Some False have ty: "pd_type (pe_def ?e) = ty"
      and ro: "pd_flags (pe_def ?e) AND UR_PARAM_FLAG_READONLY = 0"
      and g': "g' = param_commit_change g pid i ?v"
      by (auto simp: PARAM_SET_IMPL_def Let_def split: if_splits)
    have "find_entry g' pid = find_entry g pid"
      unfolding g' by (rule find_entry_cong) (simp_all add: commit_change_frame [OF i])
    with Some have fe: "find_entry g' pid = Some i"
      by simp
    have "pe_def (p_entries g' ! i) = pe_def ?e" and "pe_value (p_entries g' ! i) = ?v"
      unfolding g' by (simp_all add: commit_change_frame [OF i])
    with fe ty ro show ?thesis
      by (simp add: PARAM_SET_IMPL_def Let_def)
  qed
qed

lemma cstr_strncpy:
  "take n (cstr (strncpy_bytes s n @ 0 # rest)) = take n (cstr s)"
proof (cases "n \<le> length (cstr s)")
  case True
  have nz: "\<forall>c \<in> set (take n (cstr s)). c \<noteq> 0"
    unfolding cstr_def by (auto dest!: in_set_takeD set_takeWhileD)
  from True have "strncpy_bytes s n = take n (cstr s)"
    by (simp add: strncpy_bytes_def)
  then have "cstr (strncpy_bytes s n @ 0 # rest) = take n (cstr s)"
    using nz by (simp add: cstr_def [of "_ @ _"] takeWhile_append2)
  then show ?thesis by simp
next
  case False
  have nz: "\<forall>c \<in> set (cstr s). c \<noteq> 0"
    unfolding cstr_def by (auto dest!: set_takeWhileD)
  from False have "strncpy_bytes s n = cstr s @ replicate (n - length (cstr s)) 0"
    by (simp add: strncpy_bytes_def)
  then have "cstr (strncpy_bytes s n @ 0 # rest) = cstr s"
    using nz by (cases "n - length (cstr s)") (simp_all add: cstr_def [of "_ @ _"] takeWhile_append2)
  then show ?thesis by simp
qed

text \<open>The string setter compares first as well.\<close>

lemma param_set_str_idempotent:
  assumes "ur_param_set_str g pid (Some s) = Some (UR_OK, g')"
  shows "ur_param_set_str g' pid (Some s) = Some (UR_OK, g')"
proof (cases "find_entry g pid")
  case None
  with assms show ?thesis by (simp add: ur_param_set_str_def)
next
  case (Some i)
  note i = find_entry_SomeD(1) [OF Some]
  let ?e = "p_entries g ! i"
  let ?sz = "unat (pd_size (pe_def ?e))"
  let ?same = "if ?sz = 0 then cstr (pe_value ?e) = cstr s
               else strncmp_eq (pe_value ?e) s (?sz - 1)"
  show ?thesis
  proof (cases ?same)
    case True
    with assms Some have "g' = g"
      by (auto simp: ur_param_set_str_def Let_def split: if_splits)
    with assms show ?thesis by simp
  next
    case False
    let ?v = "strncpy_bytes s (?sz - 1) @ [0] @ drop ?sz (pe_value ?e)"
    from assms Some False have ty: "pd_type (pe_def ?e) = UR_PARAM_TYPE_STR"
      and ro: "pd_flags (pe_def ?e) AND UR_PARAM_FLAG_READONLY = 0"
      and sz: "?sz \<noteq> 0"
      and g': "g' = param_commit_change g pid i ?v"
      by (auto simp: ur_param_set_str_def Let_def split: if_splits)
    have "find_entry g' pid = find_entry g pid"
      unfolding g' by (rule find_entry_cong) (simp_all add: commit_change_frame [OF i])
    with Some have fe: "find_entry g' pid = Some i"
      by simp
    have d: "pe_def (p_entries g' ! i) = pe_def ?e" and v: "pe_value (p_entries g' ! i) = ?v"
      unfolding g' by (simp_all add: commit_change_frame [OF i])
    have "strncmp_eq ?v s (?sz - 1)"
      unfolding strncmp_eq_def by (simp add: cstr_strncpy)
    with fe ty ro sz d v show ?thesis
      by (simp add: ur_param_set_str_def Let_def)
  qed
qed

text \<open>
  The blob setter does not compare: whenever it succeeds on a parameter with the NOTIFY
  flag it publishes one more \<^verbatim>\<open>SIG_PARAM_CHANGED\<close>, whatever the value was before.
\<close>

lemma param_set_blob_notifies:
  assumes "ur_param_set_blob g pid (Some bytes) len = Some (UR_OK, g')"
    and "0 < len"
    and "find_entry g pid = Some i"
    and "pd_flags (pe_def (p_entries g ! i)) AND UR_PARAM_FLAG_NOTIFY \<noteq> 0"
  shows "p_published g' = p_published g @ [param_changed_signal pid i]"
  using assms find_entry_SomeD(1) [OF assms(3)]
  by (auto simp: ur_param_set_blob_def param_commit_change_def notify_change_def Let_def
      save_entry_frame split: if_splits)

lemma ex_param_find:
  "find_entry ex_param 3 = Some 2" "find_entry ex_param_blob_set 3 = Some 2"
  by code_simp+

lemmas param_ex_defs =
  ex_param_def ex_param_blob_set_def ex_param_entry_def ex_param_save_def
  param_commit_change_def save_entry_def notify_change_def UR_PARAM_FLAG_PERSIST_def UR_PARAM_FLAG_NOTIFY_def
  UR_PARAM_FLAG_READONLY_def UR_PARAM_FLAG_DIRTY_def UR_CFG_PARAM_MAX_STRING_LEN_def

text \<open>
  C7. The claim: every typed set operation compares the new value with the current one
  and, when they are equal, saves nothing and publishes nothing, so that setting the same
  value twice notifies at most once. The code: the scalar setters and
  \<^verbatim>\<open>ur_param_set_str\<close> do compare (\<open>param_set_scalar_idempotent\<close>,
  \<open>param_set_str_idempotent\<close>), \<^verbatim>\<open>ur_param_set_blob\<close> does not. Below, the blob parameter
  3 of \<open>ex_param\<close> is set to the bytes 1, 2, 3, 4; reading it back gives these bytes;
  setting it to the same bytes again calls the backend's \<^verbatim>\<open>save\<close> a second time and
  publishes a second \<^verbatim>\<open>SIG_PARAM_CHANGED\<close>.
\<close>

theorem param_set_blob_twice_notifies_twice:
  "ur_param_set_blob ex_param 3 (Some [1, 2, 3, 4]) 4 = Some (UR_OK, ex_param_blob_set) \<and>
   ur_param_get_blob ex_param_blob_set 3 4 = (UR_OK, [1, 2, 3, 4]) \<and>
   p_saved ex_param_blob_set = [(''calib'', [1, 2, 3, 4] @ replicate 60 0)] \<and>
   p_published ex_param_blob_set = [param_changed_signal 3 2] \<and>
   ur_param_set_blob ex_param_blob_set 3 (Some [1, 2, 3, 4]) 4 =
     Some (UR_OK, ex_param_blob_set
       \<lparr>p_saved := [(''calib'', [1, 2, 3, 4] @ replicate 60 0),
                    (''calib'', [1, 2, 3, 4] @ replicate 60 0)],
        p_published := [param_changed_signal 3 2, param_changed_signal 3 2]\<rparr>)"
  unfolding ur_param_set_blob_def ur_param_get_blob_def ex_param_find
  by (simp add: param_ex_defs)

end
